theory Spec2Isabelle
  imports Complex_Main "HOL-Library.Multiset" "HOL-Library.Char_ord" "HOL-Library.List_Lexorder"
begin

section \<open>Python values used by PokerOddsCalculator.py\<close>

text \<open>
  A Python \<open>str\<close> is modelled as a HOL \<open>string\<close>, a list of characters with code
  points below 256. Exceptions are values: a function that can raise returns
  \<open>error + 'a\<close>, with \<open>Inl\<close> for the exception.
\<close>

datatype error = IndexError | KeyError | ValueError | ZeroDivisionError
  | EmptyDeckError | InsufficientCards | OSError | UnpicklingError | TypeError

subsection \<open>Case conversion and whitespace\<close>

definition upper_letters :: string where
  "upper_letters = ''ABCDEFGHIJKLMNOPQRSTUVWXYZ'' @
     [CHR 0xC0, CHR 0xC1, CHR 0xC2, CHR 0xC3, CHR 0xC4, CHR 0xC5, CHR 0xC6, CHR 0xC7,
      CHR 0xC8, CHR 0xC9, CHR 0xCA, CHR 0xCB, CHR 0xCC, CHR 0xCD, CHR 0xCE, CHR 0xCF,
      CHR 0xD0, CHR 0xD1, CHR 0xD2, CHR 0xD3, CHR 0xD4, CHR 0xD5, CHR 0xD6,
      CHR 0xD8, CHR 0xD9, CHR 0xDA, CHR 0xDB, CHR 0xDC, CHR 0xDD, CHR 0xDE]"

definition lower_letters :: string where
  "lower_letters = ''abcdefghijklmnopqrstuvwxyz'' @
     [CHR 0xE0, CHR 0xE1, CHR 0xE2, CHR 0xE3, CHR 0xE4, CHR 0xE5, CHR 0xE6, CHR 0xE7,
      CHR 0xE8, CHR 0xE9, CHR 0xEA, CHR 0xEB, CHR 0xEC, CHR 0xED, CHR 0xEE, CHR 0xEF,
      CHR 0xF0, CHR 0xF1, CHR 0xF2, CHR 0xF3, CHR 0xF4, CHR 0xF5, CHR 0xF6,
      CHR 0xF8, CHR 0xF9, CHR 0xFA, CHR 0xFB, CHR 0xFC, CHR 0xFD, CHR 0xFE]"

text \<open>\<open>c.lower()\<close> for one character: below 256 it always is one character.\<close>

definition lower_char :: "char \<Rightarrow> char" where
  "lower_char c = (case map_of (zip upper_letters lower_letters) c of Some l \<Rightarrow> l | None \<Rightarrow> c)"

text \<open>
  \<open>c.upper()\<close> for one character. Python maps three characters below 256 out of that
  range (\<open>0xB5\<close>, \<open>0xFF\<close>) or to two letters (\<open>0xDF\<close>); they are left unchanged
  here. The program only looks the result up in \<open>RANK_TO_VALUE\<close>, where all of these
  raise \<open>KeyError\<close> alike.
\<close>

definition upper_char :: "char \<Rightarrow> char" where
  "upper_char c = (case map_of (zip lower_letters upper_letters) c of Some u \<Rightarrow> u | None \<Rightarrow> c)"

definition lower :: "string \<Rightarrow> string" where
  "lower s = map lower_char s"

text \<open>The characters \<open>str.strip()\<close> removes (\<open>str.isspace\<close>, code points below 256).\<close>

definition whitespace :: "char list" where
  "whitespace = [CHR 0x09, CHR 0x0A, CHR 0x0B, CHR 0x0C, CHR 0x0D, CHR 0x1C, CHR 0x1D,
     CHR 0x1E, CHR 0x1F, CHR 0x20, CHR 0x85, CHR 0xA0]"

definition isspace :: "char \<Rightarrow> bool" where
  "isspace c = (c \<in> set whitespace)"

definition strip :: "string \<Rightarrow> string" where
  "strip s = rev (dropWhile isspace (rev (dropWhile isspace s)))"

subsection \<open>collections.Counter\<close>

text \<open>
  A \<open>Counter\<close> is a dict, and a dict keeps its keys in the order of their first
  insertion: an association list, since \<open>analyze_hand\<close> iterates over it.
\<close>

fun counter_incr :: "'a \<Rightarrow> ('a \<times> nat) list \<Rightarrow> ('a \<times> nat) list" where
  "counter_incr k [] = [(k, 1)]"
| "counter_incr k ((k', n) # kvs) =
     (if k = k' then (k', n + 1) # kvs else (k', n) # counter_incr k kvs)"

definition Counter :: "'a list \<Rightarrow> ('a \<times> nat) list" where
  "Counter xs = foldl (\<lambda>acc k. counter_incr k acc) [] xs"

definition counter_values :: "('a \<times> nat) list \<Rightarrow> nat list" where
  "counter_values kvs = map snd kvs"

section \<open>Module constants\<close>

definition RANKS :: string where
  "RANKS = ''23456789TJQKA''"

definition SUITS :: string where
  "SUITS = ''shdc''"

text \<open>\<open>RANK_TO_VALUE = {r: i for i, r in enumerate(RANKS, 2)}\<close>\<close>

definition RANK_TO_VALUE :: "char \<rightharpoonup> int" where
  "RANK_TO_VALUE = map_of (zip RANKS (map int [2..<15]))"

text \<open>\<open>RANK_TO_VALUE[r]\<close> where the key is known to be present.\<close>

definition rank_value :: "char \<Rightarrow> int" where
  "rank_value r = (case RANK_TO_VALUE r of Some v \<Rightarrow> v | None \<Rightarrow> 0)"

section \<open>analyze_hand\<close>

text \<open>
  The nested \<open>get_straight\<close>: the distinct values in descending order, a 1 appended for
  the wheel, and the first index \<open>i\<close> in \<open>range(len(values) - 4)\<close> with
  \<open>values[i] - values[i+4] == 4\<close>. Its argument holds keys of \<open>RANK_TO_VALUE\<close> only.
\<close>

definition straight_values :: "char list \<Rightarrow> int list" where
  "straight_values ranks_list =
     (let vals = rev (sort (remdups (map rank_value ranks_list)))
      in if set ''A2345'' \<subseteq> set ranks_list then vals @ [1] else vals)"

definition get_straight :: "char list \<Rightarrow> bool \<times> int option" where
  "get_straight ranks_list =
     (let vals = straight_values ranks_list
      in case find (\<lambda>i. vals ! i - vals ! (i + 4) = 4) [0..<length vals - 4] of
           Some i \<Rightarrow> (True, Some (vals ! i))
         | None \<Rightarrow> (False, None))"

text \<open>\<open>max(ranks, key=...)\<close>: the first element whose key is maximal.\<close>

fun max_by :: "('a \<Rightarrow> int) \<Rightarrow> 'a \<Rightarrow> 'a list \<Rightarrow> 'a" where
  "max_by key best [] = best"
| "max_by key best (x # xs) = max_by key (if key best < key x then x else best) xs"

text \<open>The loop that looks for a suit held five times or more, in the dict's order.\<close>

definition find_flush_suit :: "(char \<times> nat) list \<Rightarrow> char option" where
  "find_flush_suit suit_counts = map_option fst (find (\<lambda>(suit, cnt). 5 \<le> cnt) suit_counts)"

definition analyze_hand :: "string list \<Rightarrow> error + string" where
  "analyze_hand cards =
     (if length cards < 5 then Inr ''Not enough cards for hand analysis.''
      else if list_ex (\<lambda>c. length c < 2) cards then Inl IndexError
      else
        let ranks = map (\<lambda>c. upper_char (c ! 0)) cards;
            suits = map (\<lambda>c. lower_char (c ! 1)) cards;
            rank_counts = Counter ranks;
            suit_counts = Counter suits
        in if list_ex (\<lambda>r. RANK_TO_VALUE r = None) ranks then Inl KeyError
        else
          let flush_suit = find_flush_suit suit_counts;
              flush_cards = (case flush_suit of None \<Rightarrow> []
                             | Some fs \<Rightarrow> filter (\<lambda>c. c ! 1 = fs) cards);
              flush_ranks = map (\<lambda>c. upper_char (c ! 0)) flush_cards
          in if flush_suit \<noteq> None \<and> 5 \<le> length flush_ranks \<and> fst (get_straight flush_ranks)
             then (if snd (get_straight flush_ranks) = Some 14 then Inr ''Royal Flush''
                   else Inr ''Straight Flush'')
             else if 4 \<in> set (counter_values rank_counts) then Inr ''Four of a Kind''
             else if 3 \<in> set (counter_values rank_counts) \<and> 2 \<in> set (counter_values rank_counts)
               then Inr ''Full House''
             else if flush_suit \<noteq> None then Inr ''Flush''
             else if fst (get_straight ranks) then Inr ''Straight''
             else if 3 \<in> set (counter_values rank_counts) then Inr ''Three of a Kind''
             else if 2 \<le> count_list (counter_values rank_counts) 2 then Inr ''Two Pair''
             else if 2 \<in> set (counter_values rank_counts) then Inr ''Pair''
             else (case ranks of [] \<Rightarrow> Inl ValueError
                   | r # rs \<Rightarrow> Inr (''High Card: '' @ [max_by rank_value r rs])))"

section \<open>parse_card\<close>

text \<open>
  \<open>CARD_PATTERN = re.compile(r'^[2-9TJQKA][shdc]$', re.IGNORECASE)\<close>, used with
  \<open>match\<close>: with \<open>IGNORECASE\<close> a class matches a letter in either case, and
  \<open>$\<close> matches at the end of the string and before a newline that ends it. (Beyond
  code point 255, which the model leaves out, \<open>IGNORECASE\<close> also takes U+017F for
  \<open>s\<close> and U+212A for \<open>k\<close>.)
\<close>

definition rank_char_match :: "char \<Rightarrow> bool" where
  "rank_char_match c = (c \<in> set ''23456789TJQKA'' \<or> c \<in> set ''tjqka'')"

definition suit_char_match :: "char \<Rightarrow> bool" where
  "suit_char_match c = (c \<in> set ''shdc'' \<or> c \<in> set ''SHDC'')"

fun CARD_PATTERN_match :: "string \<Rightarrow> bool" where
  "CARD_PATTERN_match [r, s] = (rank_char_match r \<and> suit_char_match s)"
| "CARD_PATTERN_match [r, s, e] = (rank_char_match r \<and> suit_char_match s \<and> e = CHR 0x0A)"
| "CARD_PATTERN_match _ = False"

definition parse_card :: "string \<Rightarrow> string option" where
  "parse_card c =
     (let c = lower (strip c)
      in if CARD_PATTERN_match c then Some c else None)"

text \<open>
  The card codes in the words of the specification: one rank character followed by one
  suit character, each in either case, and nothing else.
\<close>

fun card_code :: "string \<Rightarrow> bool" where
  "card_code [r, s] = (rank_char_match r \<and> suit_char_match s)"
| "card_code _ = False"

text \<open>The 52 codes \<open>parse_card\<close> can return: lower-case rank, then suit.\<close>

definition canonical_cards :: "string list" where
  "canonical_cards = concat (map (\<lambda>r. map (\<lambda>s. [r, s]) ''shdc'') ''23456789tjqka'')"

section \<open>Sequencing of operations that can raise\<close>

fun and_then :: "error + 'a \<Rightarrow> ('a \<Rightarrow> error + 'b) \<Rightarrow> error + 'b" where
  "and_then (Inl e) f = Inl e"
| "and_then (Inr x) f = f x"

text \<open>A list comprehension over a function that can raise.\<close>

fun map_err :: "('a \<Rightarrow> error + 'b) \<Rightarrow> 'a list \<Rightarrow> error + 'b list" where
  "map_err f [] = Inr []"
| "map_err f (x # xs) = and_then (f x) (\<lambda>y. and_then (map_err f xs) (\<lambda>ys. Inr (y # ys)))"

text \<open>\<open>for i in range(n)\<close> over a state, from index \<open>i\<close> on.\<close>

fun for_range :: "nat \<Rightarrow> nat \<Rightarrow> (nat \<Rightarrow> 's \<Rightarrow> error + 's) \<Rightarrow> 's \<Rightarrow> error + 's" where
  "for_range i 0 body st = Inr st"
| "for_range i (Suc n) body st = and_then (body i st) (for_range (Suc i) n body)"

text \<open>\<open>list.remove(x)\<close>: drops the first occurrence, \<open>ValueError\<close> when there is none.\<close>

fun list_remove :: "'a \<Rightarrow> 'a list \<Rightarrow> error + 'a list" where
  "list_remove x [] = Inl ValueError"
| "list_remove x (y # ys) =
     (if x = y then Inr ys else and_then (list_remove x ys) (\<lambda>zs. Inr (y # zs)))"

text \<open>\<open>min(xs)\<close>: \<open>ValueError\<close> on the empty list.\<close>

fun py_min :: "int list \<Rightarrow> error + int" where
  "py_min [] = Inl ValueError"
| "py_min (x # xs) = Inr (fold min xs x)"

section \<open>The deuces package: cards, deck, evaluator\<close>

text \<open>
  \<open>Card\<close>, \<open>Deck\<close> and \<open>Evaluator\<close> come from the third-party package \<open>deuces\<close>
  (\<open>from deuces import Card, Evaluator, Deck\<close>), which is not among the sources.

  Modelled from the spec: the Card of deuces. A card is a rank and a suit, and two cards
  are equal iff rank and suit match. \<open>Card.new\<close> takes the two-character code (rank in
  upper case, suit in lower case) to the package's integer for it; the program uses
  that integer only for equality and as an argument of the evaluator, so the code itself
  stands for it here. A character outside the two tables raises \<open>KeyError\<close>.
\<close>

type_synonym card = string

definition STR_RANKS :: string where
  "STR_RANKS = ''23456789TJQKA''"

definition Card_new :: "string \<Rightarrow> error + card" where
  "Card_new s =
     (case s of
        r # u # _ \<Rightarrow> if r \<in> set STR_RANKS \<and> u \<in> set ''shdc'' then Inr [r, u] else Inl KeyError
      | _ \<Rightarrow> Inl IndexError)"

text \<open>
  Modelled from the spec: the Deck of deuces. A new deck holds the 52 cards of the
  universe in a random order; the order a trial meets is an argument of the model, and
  \<open>GetFullDeck\<close> is the universe. \<open>draw\<close> removes and returns one remaining card and
  fails with \<open>EmptyDeckError\<close> if no cards remain.
\<close>

definition GetFullDeck :: "card list" where
  "GetFullDeck = concat (map (\<lambda>r. map (\<lambda>s. [r, s]) ''shdc'') STR_RANKS)"

definition draw :: "card list \<Rightarrow> error + card \<times> card list" where
  "draw cards = (case cards of [] \<Rightarrow> Inl EmptyDeckError | c # cs \<Rightarrow> Inr (c, cs))"

text \<open>\<open>[deck.draw(1) for _ in range(n)]\<close>\<close>

fun draw_list :: "nat \<Rightarrow> card list \<Rightarrow> error + card list \<times> card list" where
  "draw_list 0 cards = Inr ([], cards)"
| "draw_list (Suc n) cards =
     and_then (draw cards) (\<lambda>(c, cards).
     and_then (draw_list n cards) (\<lambda>(cs, cards). Inr (c # cs, cards)))"

text \<open>
  Modelled from the spec: the Hand Evaluator of deuces. \<open>evaluate(board, hand)\<close> is a
  deterministic function of 5 to 7 cards, where the lower value is the stronger hand;
  given fewer than 5 cards it signals InsufficientCards. The function itself, \<open>ev\<close>, and
  \<open>get_rank_class\<close>, \<open>rc\<close>, are arguments of the model.
\<close>

definition evaluate :: "(card list \<Rightarrow> card list \<Rightarrow> int) \<Rightarrow> card list \<Rightarrow> card list \<Rightarrow> error + int" where
  "evaluate ev board hand =
     (if length hand + length board < 5 then Inl InsufficientCards
      else if 7 < length hand + length board then Inl KeyError
      else Inr (ev board hand))"

section \<open>to_deuces and the simulations\<close>

definition to_deuces :: "string \<Rightarrow> error + card" where
  "to_deuces c =
     (if length c < 2 then Inl IndexError
      else Card_new [upper_char (c ! 0), lower_char (c ! 1)])"

text \<open>\<open>for c in cards: deck.cards.remove(to_deuces(c))\<close>\<close>

fun remove_known :: "string list \<Rightarrow> card list \<Rightarrow> error + card list" where
  "remove_known [] cards = Inr cards"
| "remove_known (c # cs) cards =
     and_then (to_deuces c) (\<lambda>x. and_then (list_remove x cards) (remove_known cs))"

text \<open>
  \<open>needed = 5 - len(board)\<close>;
  \<open>sim_board = board + [deck.draw(1) for _ in range(needed)] if needed > 0 else board\<close>
\<close>

definition complete_board :: "card list \<Rightarrow> card list \<Rightarrow> error + card list \<times> card list" where
  "complete_board board cards =
     (let needed = 5 - int (length board)
      in if 0 < needed
         then and_then (draw_list (nat needed) cards) (\<lambda>(drawn, cards). Inr (board @ drawn, cards))
         else Inr (board, cards))"

text \<open>The loop over \<open>range(num_players - 1)\<close> that deals two cards to each opponent.\<close>

fun deal_opponents :: "nat \<Rightarrow> card list \<Rightarrow> error + card list list \<times> card list" where
  "deal_opponents 0 cards = Inr ([], cards)"
| "deal_opponents (Suc n) cards =
     and_then (draw cards) (\<lambda>(c1, cards).
     and_then (draw cards) (\<lambda>(c2, cards).
     and_then (deal_opponents n cards) (\<lambda>(opp_hands, cards). Inr ([c1, c2] # opp_hands, cards))))"

datatype outcome = Win | Tie | Loss

text \<open>
  \<open>if hero_score < min(opp_scores): ... elif hero_score == min(opp_scores): ... else: ...\<close>
\<close>

definition compare_scores :: "int \<Rightarrow> int list \<Rightarrow> error + outcome" where
  "compare_scores hero_score opp_scores =
     and_then (py_min opp_scores) (\<lambda>m.
       if hero_score < m then Inr Win
       else and_then (py_min opp_scores) (\<lambda>m.
         if hero_score = m then Inr Tie else Inr Loss))"

subsection \<open>monte_carlo_odds\<close>

text \<open>
  One trial, in two steps: the cards are dealt from the trial's deck \<open>shuffled\<close> (the
  third component of the result is what is left of the deck), then scored.
\<close>

definition odds_deal ::
  "card list \<Rightarrow> string list \<Rightarrow> string list \<Rightarrow> card list \<Rightarrow> int \<Rightarrow>
   error + card list \<times> card list list \<times> card list" where
  "odds_deal shuffled hand_cards board_cards board num_players =
     and_then (remove_known (hand_cards @ board_cards) shuffled) (\<lambda>cards.
     and_then (complete_board board cards) (\<lambda>(sim_board, cards).
     and_then (deal_opponents (nat (num_players - 1)) cards) (\<lambda>(opp_hands, cards).
     Inr (sim_board, opp_hands, cards))))"

definition odds_trial ::
  "(card list \<Rightarrow> card list \<Rightarrow> int) \<Rightarrow> card list \<Rightarrow> string list \<Rightarrow> string list \<Rightarrow>
   card list \<Rightarrow> card list \<Rightarrow> int \<Rightarrow> error + outcome" where
  "odds_trial ev shuffled hand_cards board_cards hand board num_players =
     and_then (odds_deal shuffled hand_cards board_cards board num_players)
       (\<lambda>(sim_board, opp_hands, cards).
     and_then (evaluate ev sim_board hand) (\<lambda>hero_score.
     and_then (map_err (evaluate ev sim_board) opp_hands) (\<lambda>opp_scores.
     compare_scores hero_score opp_scores)))"

fun tally :: "outcome \<Rightarrow> nat \<times> nat \<times> nat \<Rightarrow> nat \<times> nat \<times> nat" where
  "tally Win (wins, ties, losses) = (wins + 1, ties, losses)"
| "tally Tie (wins, ties, losses) = (wins, ties + 1, losses)"
| "tally Loss (wins, ties, losses) = (wins, ties, losses + 1)"

text \<open>
  The counters \<open>(wins, ties, losses)\<close> after the loop; \<open>decks i\<close> is the order of the
  deck that trial \<open>i\<close> builds.
\<close>

definition odds_counts ::
  "(card list \<Rightarrow> card list \<Rightarrow> int) \<Rightarrow> (nat \<Rightarrow> card list) \<Rightarrow> string list \<Rightarrow> string list \<Rightarrow>
   int \<Rightarrow> int \<Rightarrow> error + nat \<times> nat \<times> nat" where
  "odds_counts ev decks hand_cards board_cards num_players num_trials =
     and_then (map_err to_deuces hand_cards) (\<lambda>hand.
     and_then (map_err to_deuces board_cards) (\<lambda>board.
     for_range 0 (nat num_trials)
       (\<lambda>i counts. and_then
          (odds_trial ev (decks i) hand_cards board_cards hand board num_players)
          (\<lambda>out. Inr (tally out counts)))
       (0, 0, 0)))"

text \<open>
  The percentages are Python floats; here they are exact rationals, so a statement
  about them holds up to the rounding of the float division.
\<close>

definition monte_carlo_odds ::
  "(card list \<Rightarrow> card list \<Rightarrow> int) \<Rightarrow> (nat \<Rightarrow> card list) \<Rightarrow> string list \<Rightarrow> string list \<Rightarrow>
   int \<Rightarrow> int \<Rightarrow> error + rat \<times> rat" where
  "monte_carlo_odds ev decks hand_cards board_cards num_players num_trials =
     and_then (odds_counts ev decks hand_cards board_cards num_players num_trials)
       (\<lambda>(wins, ties, losses).
          if num_trials = 0 then Inl ZeroDivisionError
          else Inr (100 * of_nat wins / of_int num_trials, 100 * of_nat ties / of_int num_trials))"

subsection \<open>monte_carlo_hand_distribution\<close>

text \<open>\<open>{i: 0 for i in range(1, 10)}\<close> and \<open>d[k] += 1\<close>, a \<open>KeyError\<close> on a missing key.\<close>

type_synonym counts = "int \<rightharpoonup> nat"

definition new_counts :: counts where
  "new_counts = (\<lambda>i. if 1 \<le> i \<and> i < 10 then Some 0 else None)"

definition count_up :: "counts \<Rightarrow> int \<Rightarrow> error + counts" where
  "count_up d k = (case d k of None \<Rightarrow> Inl KeyError | Some n \<Rightarrow> Inr (d(k \<mapsto> n + 1)))"

definition distribution_trial ::
  "(card list \<Rightarrow> card list \<Rightarrow> int) \<Rightarrow> (int \<Rightarrow> int) \<Rightarrow> card list \<Rightarrow> string list \<Rightarrow> string list \<Rightarrow>
   card list \<Rightarrow> card list \<Rightarrow> counts \<Rightarrow> error + counts" where
  "distribution_trial ev rc shuffled hand_cards board_cards hand board hand_type_counts =
     and_then (remove_known (hand_cards @ board_cards) shuffled) (\<lambda>cards.
     and_then (complete_board board cards) (\<lambda>(sim_board, cards).
     and_then (evaluate ev sim_board hand) (\<lambda>rank.
     count_up hand_type_counts (rc rank))))"

definition monte_carlo_hand_distribution ::
  "(card list \<Rightarrow> card list \<Rightarrow> int) \<Rightarrow> (int \<Rightarrow> int) \<Rightarrow> (nat \<Rightarrow> card list) \<Rightarrow>
   string list \<Rightarrow> string list \<Rightarrow> int \<Rightarrow> error + counts" where
  "monte_carlo_hand_distribution ev rc decks hand_cards board_cards num_trials =
     and_then (map_err to_deuces hand_cards) (\<lambda>hand.
     and_then (map_err to_deuces board_cards) (\<lambda>board.
     for_range 0 (nat num_trials)
       (\<lambda>i. distribution_trial ev rc (decks i) hand_cards board_cards hand board)
       new_counts))"

subsection \<open>monte_carlo_preflop_distributions\<close>

type_synonym preflop_result = "counts \<times> counts \<times> counts \<times> nat \<times> nat"

definition preflop_trial ::
  "(card list \<Rightarrow> card list \<Rightarrow> int) \<Rightarrow> (int \<Rightarrow> int) \<Rightarrow> card list \<Rightarrow> string list \<Rightarrow>
   card list \<Rightarrow> int \<Rightarrow> preflop_result \<Rightarrow> error + preflop_result" where
  "preflop_trial ev rc shuffled hand_cards hand num_players st =
     (case st of (flop_counts, turn_counts, river_counts, win, tie) \<Rightarrow>
     and_then (remove_known hand_cards shuffled) (\<lambda>cards.
     and_then (draw_list 3 cards) (\<lambda>(flop, cards).
     and_then (evaluate ev flop hand) (\<lambda>flop_rank.
     and_then (count_up flop_counts (rc flop_rank)) (\<lambda>flop_counts.
     and_then (draw cards) (\<lambda>(c, cards). let turn = flop @ [c] in
     and_then (evaluate ev turn hand) (\<lambda>turn_rank.
     and_then (count_up turn_counts (rc turn_rank)) (\<lambda>turn_counts.
     and_then (draw cards) (\<lambda>(c, cards). let river = turn @ [c] in
     and_then (evaluate ev river hand) (\<lambda>river_rank.
     and_then (count_up river_counts (rc river_rank)) (\<lambda>river_counts.
     and_then (deal_opponents (nat (num_players - 1)) cards) (\<lambda>(opp_hands, cards).
     and_then (map_err (evaluate ev river) opp_hands) (\<lambda>opp_scores.
     and_then (compare_scores river_rank opp_scores) (\<lambda>out.
       Inr (flop_counts, turn_counts, river_counts,
            (if out = Win then win + 1 else win),
            (if out = Tie then tie + 1 else tie))))))))))))))))"

definition monte_carlo_preflop_distributions ::
  "(card list \<Rightarrow> card list \<Rightarrow> int) \<Rightarrow> (int \<Rightarrow> int) \<Rightarrow> (nat \<Rightarrow> card list) \<Rightarrow>
   string list \<Rightarrow> int \<Rightarrow> int \<Rightarrow> error + preflop_result" where
  "monte_carlo_preflop_distributions ev rc decks hand_cards num_players num_trials =
     and_then (map_err to_deuces hand_cards) (\<lambda>hand.
     for_range 0 (nat num_trials)
       (\<lambda>i. preflop_trial ev rc (decks i) hand_cards hand num_players)
       (new_counts, new_counts, new_counts, 0, 0))"

text \<open>The invariant of the tallies: every class from 1 to 9 is a key of the dict.\<close>

definition full_counts :: "counts \<Rightarrow> bool" where
  "full_counts d = list_all (\<lambda>k. d k \<noteq> None) [1, 2, 3, 4, 5, 6, 7, 8, 9]"

section \<open>The preflop cache of calculate_odds\<close>

text \<open>
  \<open>key = tuple(sorted(hand)) + (players,)\<close>: the sorted hole cards and the number of
  players. Strings sort by code point, lexicographically.
\<close>

type_synonym cache_key = "string list \<times> int"

definition cache_key :: "string list \<Rightarrow> int \<Rightarrow> cache_key" where
  "cache_key hand players = (sort hand, players)"

text \<open>
  \<open>self.preflop_cache\<close> is whatever object \<open>pickle.load\<close> returned, or a dict the
  program made. The objects told apart here: \<open>None\<close>; a list (of its elements only
  those that are keys matter to \<open>key in ...\<close>); a dict, whose value under a key either
  is a tuple of the five results or is something else, on which the unpacking
  \<open>flop_counts, turn_counts, river_counts, win, tie = ...\<close> raises the exception given
  (\<open>TypeError\<close> or \<open>ValueError\<close>).
\<close>

datatype stored = Entry preflop_result | Malformed error

datatype pyobject = PyNone | PyList "cache_key list" | PyDict "cache_key \<rightharpoonup> stored"

text \<open>
  The file \<open>CACHE_FILE\<close>, by what reading it does: there is no file, or there is one
  and opening and unpickling it raises, or yields the object pickled in it.
\<close>

datatype cache_file = NoFile | File "error + pyobject"

definition path_exists :: "cache_file \<Rightarrow> bool" where
  "path_exists f = (f \<noteq> NoFile)"

text \<open>\<open>with open(CACHE_FILE, 'rb') as f: return pickle.load(f)\<close>\<close>

definition read_pickle :: "cache_file \<Rightarrow> error + pyobject" where
  "read_pickle f = (case f of NoFile \<Rightarrow> Inl OSError | File r \<Rightarrow> r)"

text \<open>
  The \<open>try\<close> returns what was unpickled, unchecked; \<open>except Exception\<close> and the
  missing file give \<open>{}\<close>.
\<close>

definition load_preflop_cache :: "cache_file \<Rightarrow> pyobject" where
  "load_preflop_cache f =
     (if path_exists f
      then (case read_pickle f of Inr obj \<Rightarrow> obj | Inl e \<Rightarrow> PyDict Map.empty)
      else PyDict Map.empty)"

text \<open>
  \<open>with open(CACHE_FILE, 'wb') as f: pickle.dump(self.preflop_cache, f)\<close>. Whether the
  write fails is up to the environment: \<open>failure\<close> is \<open>None\<close> when it succeeds, and
  otherwise the exception and the file the failed attempt leaves behind.
\<close>

definition write_pickle ::
  "(error \<times> cache_file) option \<Rightarrow> pyobject \<Rightarrow> cache_file \<Rightarrow> (error + unit) \<times> cache_file" where
  "write_pickle failure obj f =
     (case failure of None \<Rightarrow> (Inr (), File (Inr obj)) | Some (e, f') \<Rightarrow> (Inl e, f'))"

definition save_preflop_cache ::
  "(error \<times> cache_file) option \<Rightarrow> pyobject \<Rightarrow> cache_file \<Rightarrow> cache_file" where
  "save_preflop_cache failure obj f =
     (case write_pickle failure obj f of (Inr u, f') \<Rightarrow> f' | (Inl e, f') \<Rightarrow> f')"

text \<open>The window's state that the cache concerns: \<open>self.preflop_cache\<close> and the file.\<close>

record app =
  preflop_cache :: pyobject
  cache_file :: cache_file

text \<open>\<open>self.preflop_cache = self.load_preflop_cache()\<close> in \<open>__init__\<close>\<close>

definition init_app :: "cache_file \<Rightarrow> app" where
  "init_app f = \<lparr>preflop_cache = load_preflop_cache f, cache_file = f\<rparr>"

text \<open>
  The preflop branch of \<open>calculate_odds\<close>: look the key up, and simulate, store and
  save only when it is missing. It returns the five values the branch goes on to render.
  On \<open>None\<close> the test \<open>key in self.preflop_cache\<close> raises \<open>TypeError\<close>; on a list
  the test is a search, and the subscript with a tuple, read or written, raises
  \<open>TypeError\<close>.
\<close>

definition calculate_odds_preflop ::
  "(card list \<Rightarrow> card list \<Rightarrow> int) \<Rightarrow> (int \<Rightarrow> int) \<Rightarrow> (nat \<Rightarrow> card list) \<Rightarrow>
   (error \<times> cache_file) option \<Rightarrow> app \<Rightarrow> string list \<Rightarrow> int \<Rightarrow> error + preflop_result \<times> app" where
  "calculate_odds_preflop ev rc decks failure self hand players =
     (let key = cache_key hand players
      in case preflop_cache self of
           PyNone \<Rightarrow> Inl TypeError
         | PyList keys \<Rightarrow>
             if key \<in> set keys then Inl TypeError
             else and_then (monte_carlo_preflop_distributions ev rc decks hand players 500000)
                    (\<lambda>result. Inl TypeError)
         | PyDict d \<Rightarrow>
             (case d key of
                Some (Entry result) \<Rightarrow> Inr (result, self)
              | Some (Malformed e) \<Rightarrow> Inl e
              | None \<Rightarrow>
                  and_then (monte_carlo_preflop_distributions ev rc decks hand players 500000)
                    (\<lambda>result.
                       let c = PyDict (d(key \<mapsto> Entry result))
                       in Inr (result, self\<lparr>preflop_cache := c,
                                 cache_file := save_preflop_cache failure c (cache_file self)\<rparr>))))"

section \<open>The table of hand types\<close>

definition HAND_CLASS_NAMES :: "string list" where
  "HAND_CLASS_NAMES = [''High Card'', ''Pair'', ''Two Pair'', ''Three of a Kind'', ''Straight'',
     ''Flush'', ''Full House'', ''Four of a Kind'', ''Straight Flush'']"

text \<open>
  \<open>HAND_TYPE_EXAMPLES\<close>: for each key the cards its lambda renders with
  \<open>card_label_html\<close>, and the category the comment on that line names.
\<close>

definition HAND_TYPE_EXAMPLES :: "(int \<times> string list \<times> string) list" where
  "HAND_TYPE_EXAMPLES =
     [(1, [''As''], ''High Card''),
      (2, [''As'', ''Ah''], ''Pair''),
      (3, [''As'', ''Ah'', ''Ks'', ''Kh''], ''Two Pair''),
      (4, [''As'', ''Ah'', ''Ad''], ''Three of a Kind''),
      (5, [''As'', ''Ks'', ''Qs'', ''Js'', ''Ts''], ''Straight''),
      (6, [''As'', ''Js'', ''8s'', ''4s'', ''2s''], ''Flush''),
      (7, [''As'', ''Ah'', ''Ad'', ''Ks'', ''Kh''], ''Full House''),
      (8, [''As'', ''Ah'', ''Ad'', ''Ac''], ''Four of a Kind''),
      (9, [''As'', ''Ks'', ''Qs'', ''Js'', ''Ts''], ''Straight Flush'')]"

text \<open>
  \<open>Evaluator.class_to_string\<close> looks the class up in a table of the deuces package,
  \<open>LookupTable.RANK_CLASS_TO_STRING\<close>. The package is not among the sources; this is
  the table as the package publishes it, with class 1 the strongest.
\<close>

definition RANK_CLASS_TO_STRING :: "(int \<times> string) list" where
  "RANK_CLASS_TO_STRING =
     [(1, ''Straight Flush''), (2, ''Four of a Kind''), (3, ''Full House''), (4, ''Flush''),
      (5, ''Straight''), (6, ''Three of a Kind''), (7, ''Two Pair''), (8, ''Pair''),
      (9, ''High Card'')]"

definition class_to_string :: "(int \<times> string) list \<Rightarrow> int \<Rightarrow> error + string" where
  "class_to_string table class_int =
     (case map_of table class_int of None \<Rightarrow> Inl KeyError | Some name \<Rightarrow> Inr name)"

text \<open>
  Row \<open>i\<close> of the table the preflop branch renders, for \<open>i\<close> in \<open>range(1, 10)\<close>:
  the example's cards, the name, and the three counts the percentages are taken from.
\<close>

definition preflop_row ::
  "(int \<times> string) list \<Rightarrow> preflop_result \<Rightarrow> int \<Rightarrow> error + string list \<times> string \<times> nat \<times> nat \<times> nat" where
  "preflop_row table result i =
     (case result of (flop_counts, turn_counts, river_counts, win, tie) \<Rightarrow>
      and_then (class_to_string table i) (\<lambda>name.
      case map_of HAND_TYPE_EXAMPLES i of
        None \<Rightarrow> Inl KeyError
      | Some (example, comment) \<Rightarrow>
          Inr (example, name,
               (case flop_counts i of None \<Rightarrow> 0 | Some n \<Rightarrow> n),
               (case turn_counts i of None \<Rightarrow> 0 | Some n \<Rightarrow> n),
               (case river_counts i of None \<Rightarrow> 0 | Some n \<Rightarrow> n))))"

section \<open>The classifier on fixed hands\<close>

text \<open>
  C9: a sequence of fewer than five cards, whatever its elements, gets the message
  "Not enough cards for hand analysis." as an ordinary return value: no category and no
  exception.
\<close>

theorem analyze_hand_not_enough_cards:
  "length cards < 5 \<Longrightarrow> analyze_hand cards = Inr ''Not enough cards for hand analysis.''"
  by (simp add: analyze_hand_def)

theorem analyze_hand_not_enough_cards_witness:
  "length [''As'', ''Kd''] < 5 \<and>
   analyze_hand [''As'', ''Kd''] = Inr ''Not enough cards for hand analysis.''"
  using analyze_hand_not_enough_cards [of "[''As'', ''Kd'']"] by simp

text \<open>
  C5: the wheel As 2h 3d 4c 5s is labelled Straight, found as a five-high straight; the
  ace also counts high, with value 14, in A K Q J T.
\<close>

theorem analyze_hand_wheel:
  "analyze_hand [''As'', ''2h'', ''3d'', ''4c'', ''5s''] = Inr ''Straight'' \<and>
   get_straight ''A2345'' = (True, Some 5) \<and>
   get_straight ''AKQJT'' = (True, Some 14) \<and>
   analyze_hand [''Ah'', ''Ks'', ''Qd'', ''Jc'', ''Ts''] = Inr ''Straight''"
  by code_simp

section \<open>The card parser\<close>

lemma lower_char_rank_match: "\<forall>c. rank_char_match (lower_char c) = rank_char_match c"
  by code_simp

lemma lower_char_suit_match: "\<forall>c. suit_char_match (lower_char c) = suit_char_match c"
  by code_simp

lemma lower_char_newline: "\<forall>c. (lower_char c = CHR 0x0A) = (c = CHR 0x0A)"
  by code_simp

lemma lower_char_rank_canonical: "\<forall>c. rank_char_match c = (lower_char c \<in> set ''23456789tjqka'')"
  by code_simp

lemma lower_char_suit_canonical: "\<forall>c. suit_char_match c = (lower_char c \<in> set ''shdc'')"
  by code_simp

lemma isspace_newline: "isspace (CHR 0x0A)"
  by code_simp

lemma strip_last_not_space: "strip s \<noteq> [] \<Longrightarrow> \<not> isspace (last (strip s))"
proof -
  assume ne: "strip s \<noteq> []"
  let ?t = "dropWhile isspace (rev (dropWhile isspace s))"
  from ne have "?t \<noteq> []" by (simp add: strip_def)
  then have "\<not> isspace (hd ?t)" by (rule hd_dropWhile)
  moreover have "last (strip s) = hd ?t"
    using \<open>?t \<noteq> []\<close> by (simp add: strip_def last_rev)
  ultimately show ?thesis by simp
qed

lemma CARD_PATTERN_match_length: "CARD_PATTERN_match t \<Longrightarrow> length t = 2 \<or> length t = 3"
  by (cases t rule: CARD_PATTERN_match.cases) auto

lemma card_code_length: "card_code t \<Longrightarrow> length t = 2"
  by (cases t rule: card_code.cases) auto

lemma CARD_PATTERN_match_lower_strip:
  "CARD_PATTERN_match (lower (strip s)) = card_code (strip s)"
proof -
  consider (two) "length (strip s) = 2" | (three) "length (strip s) = 3"
    | (other) "length (strip s) \<noteq> 2" "length (strip s) \<noteq> 3"
    by blast
  then show ?thesis
  proof cases
    case two
    then obtain r u where "strip s = [r, u]"
      by (auto simp: length_Suc_conv numeral_2_eq_2)
    then show ?thesis
      by (simp add: lower_def lower_char_rank_match lower_char_suit_match)
  next
    case three
    then obtain r u e where t: "strip s = [r, u, e]"
      by (auto simp: length_Suc_conv numeral_3_eq_3)
    have "\<not> isspace e"
      using strip_last_not_space [of s] t by simp
    then have "e \<noteq> CHR 0x0A" using isspace_newline by auto
    then show ?thesis
      using t by (simp add: lower_def lower_char_newline)
  next
    case other
    have "\<not> CARD_PATTERN_match (lower (strip s))"
      using other CARD_PATTERN_match_length [of "lower (strip s)"] by (auto simp: lower_def)
    moreover have "\<not> card_code (strip s)"
      using other card_code_length [of "strip s"] by auto
    ultimately show ?thesis by simp
  qed
qed

lemma parse_card_Some:
  "(parse_card s = Some c) = (card_code (strip s) \<and> c = lower (strip s))"
  by (auto simp: parse_card_def Let_def CARD_PATTERN_match_lower_strip)

lemma canonical_cards_accepted: "list_all (\<lambda>c. parse_card c = Some c) canonical_cards"
  by code_simp

lemma set_card_product:
  "(c \<in> set (concat (map (\<lambda>r. map (\<lambda>s. [r, s]) ss) rs))) =
   (\<exists>r u. c = [r, u] \<and> r \<in> set rs \<and> u \<in> set ss)"
  by auto

lemma canonical_cards_set:
  "(c \<in> set canonical_cards) = (\<exists>r u. c = [r, u] \<and> r \<in> set ''23456789tjqka'' \<and> u \<in> set ''shdc'')"
  unfolding canonical_cards_def by (rule set_card_product)

lemma canonical_cards_52: "distinct canonical_cards \<and> length canonical_cards = 52"
  by code_simp

lemma parse_card_range: "(\<exists>t. parse_card t = Some c) = (c \<in> set canonical_cards)"
proof
  assume "\<exists>t. parse_card t = Some c"
  then obtain t where t: "card_code (strip t)" "c = lower (strip t)"
    by (auto simp: parse_card_Some)
  from t(1) obtain r u where ru: "strip t = [r, u]" "rank_char_match r" "suit_char_match u"
    by (cases "strip t" rule: card_code.cases) auto
  have "lower_char r \<in> set ''23456789tjqka''"
    using ru(2) lower_char_rank_canonical by blast
  moreover have "lower_char u \<in> set ''shdc''"
    using ru(3) lower_char_suit_canonical by blast
  moreover have "c = [lower_char r, lower_char u]"
    using t(2) ru(1) by (simp add: lower_def)
  ultimately show "c \<in> set canonical_cards"
    unfolding canonical_cards_set by blast
next
  assume "c \<in> set canonical_cards"
  then have "parse_card c = Some c"
    using canonical_cards_accepted by (simp add: list_all_iff)
  then show "\<exists>t. parse_card t = Some c" ..
qed

text \<open>
  C4 (amended): \<open>parse_card\<close> strips surrounding whitespace first. It accepts a
  string exactly when the stripped string is a rank character followed by a suit
  character, in either case, and returns the stripped string in lower case; the values it
  returns are exactly the 52 distinct canonical codes.
\<close>

theorem parse_card_accepts:
  "(parse_card s = Some c) = (card_code (strip s) \<and> c = lower (strip s)) \<and>
   (\<exists>t. parse_card t = Some c) = (c \<in> set canonical_cards) \<and>
   distinct canonical_cards \<and> length canonical_cards = 52"
  using parse_card_Some parse_card_range canonical_cards_52 by blast

text \<open>
  C4 as stated fails: the three-character string \<open>'' As''\<close> is accepted, and it is
  not a two-character card code.
\<close>

theorem parse_card_padded_counterexample:
  "parse_card '' As'' = Some ''as'' \<and> \<not> card_code '' As''"
  by code_simp

section \<open>Reordering the classifier's input\<close>

lemma counter_incr_keys:
  "map fst (counter_incr k kvs) = (if k \<in> set (map fst kvs) then map fst kvs else map fst kvs @ [k])"
  by (induction kvs) force+

lemma counter_incr_distinct: "distinct (map fst kvs) \<Longrightarrow> distinct (map fst (counter_incr k kvs))"
  by (simp add: counter_incr_keys)

lemma counter_incr_map_of:
  "map_of (counter_incr k kvs) = (map_of kvs)(k \<mapsto> (case map_of kvs k of None \<Rightarrow> 1 | Some n \<Rightarrow> n + 1))"
  by (induction kvs) (auto simp: fun_eq_iff)

lemma Counter_foldl:
  "distinct (map fst acc) \<Longrightarrow>
   distinct (map fst (foldl (\<lambda>acc k. counter_incr k acc) acc xs)) \<and>
   map_of (foldl (\<lambda>acc k. counter_incr k acc) acc xs) k =
     (case map_of acc k of None \<Rightarrow> (if k \<in> set xs then Some (count_list xs k) else None)
      | Some n \<Rightarrow> Some (n + count_list xs k))"
proof (induction xs arbitrary: acc)
  case Nil
  then show ?case by (simp split: option.splits)
next
  case (Cons x xs)
  have d: "distinct (map fst (counter_incr x acc))"
    using Cons.prems by (rule counter_incr_distinct)
  show ?case
    using Cons.IH [OF d] by (auto simp: counter_incr_map_of split: option.splits)
qed

lemma Counter_distinct: "distinct (map fst (Counter xs))"
  using Counter_foldl [of "[]" xs] by (simp add: Counter_def)

lemma Counter_map_of:
  "map_of (Counter xs) k = (if k \<in> set xs then Some (count_list xs k) else None)"
  using Counter_foldl [of "[]" xs k] by (simp add: Counter_def)

lemma Counter_set: "set (Counter xs) = (\<lambda>k. (k, count_list xs k)) ` set xs"
proof -
  have "(k, n) \<in> set (Counter xs) \<longleftrightarrow> k \<in> set xs \<and> n = count_list xs k" for k n
    using map_of_eq_Some_iff [OF Counter_distinct, of xs k n]
    by (auto simp: Counter_map_of split: if_splits)
  then show ?thesis by auto
qed

lemma Counter_mset:
  assumes "mset xs = mset ys"
  shows "mset (Counter xs) = mset (Counter ys)"
proof -
  have c: "count_list xs k = count_list ys k" for k
    using assms by (metis count_mset)
  have s: "set xs = set ys" using assms by (rule mset_eq_setD)
  have "set (Counter xs) = set (Counter ys)"
    by (simp add: Counter_set c s)
  moreover have "distinct (Counter xs)" "distinct (Counter ys)"
    using Counter_distinct distinct_map by blast+
  ultimately show ?thesis
    by (simp add: set_eq_iff_mset_eq_distinct)
qed

lemma counter_values_mset:
  "mset xs = mset ys \<Longrightarrow> mset (counter_values (Counter xs)) = mset (counter_values (Counter ys))"
  using Counter_mset [of xs ys] by (metis counter_values_def mset_map)

lemma count_list_two_keys: "k1 \<noteq> k2 \<Longrightarrow> count_list xs k1 + count_list xs k2 \<le> length xs"
  by (induction xs) auto

lemma find_unique:
  assumes "set xs = set ys" and "\<And>x y. x \<in> set xs \<Longrightarrow> y \<in> set xs \<Longrightarrow> P x \<Longrightarrow> P y \<Longrightarrow> x = y"
  shows "find P xs = find P ys"
proof (cases "find P xs")
  case None
  then show ?thesis using assms(1) by (metis find_None_iff)
next
  case (Some a)
  then have a: "a \<in> set xs" "P a" by (auto simp: find_Some_iff)
  then obtain b where b: "find P ys = Some b"
    using assms(1) by (cases "find P ys") (auto simp: find_None_iff)
  then have "b \<in> set ys" "P b" by (auto simp: find_Some_iff)
  then have "a = b" using a assms by auto
  then show ?thesis using Some b by simp
qed

lemma find_flush_suit_perm:
  assumes "mset xs = mset ys" "length xs \<le> 9"
  shows "find_flush_suit (Counter xs) = find_flush_suit (Counter ys)"
proof -
  have s: "set (Counter xs) = set (Counter ys)"
    using Counter_mset [OF assms(1)] by (rule mset_eq_setD)
  have "find (\<lambda>(suit, cnt). 5 \<le> cnt) (Counter xs) = find (\<lambda>(suit, cnt). 5 \<le> cnt) (Counter ys)"
  proof (rule find_unique [OF s])
    fix x y assume "x \<in> set (Counter xs)" "y \<in> set (Counter xs)"
      and px: "case x of (suit, cnt) \<Rightarrow> 5 \<le> cnt" and py: "case y of (suit, cnt) \<Rightarrow> 5 \<le> cnt"
    then obtain k1 k2 where k: "x = (k1, count_list xs k1)" "y = (k2, count_list xs k2)"
      by (auto simp: Counter_set)
    have "k1 = k2"
    proof (rule ccontr)
      assume "k1 \<noteq> k2"
      then have "count_list xs k1 + count_list xs k2 \<le> length xs" by (rule count_list_two_keys)
      then show False using px py k assms(2) by simp
    qed
    then show "x = y" using k by simp
  qed
  then show ?thesis by (simp add: find_flush_suit_def)
qed


lemma straight_values_set: "set a = set b \<Longrightarrow> straight_values a = straight_values b"
proof -
  assume s: "set a = set b"
  then have "set (map rank_value a) = set (map rank_value b)" by simp
  then have "sort (remdups (map rank_value a)) = sort (remdups (map rank_value b))"
    by (simp only: sorted_list_of_set_sort_remdups [symmetric])
  then show ?thesis by (simp add: straight_values_def s)
qed

lemma get_straight_set: "set a = set b \<Longrightarrow> get_straight a = get_straight b"
  by (simp add: get_straight_def straight_values_set [of a b])

lemma max_by_mem: "max_by key b xs \<in> set (b # xs)"
  by (induction xs arbitrary: b) auto

lemma max_by_best: "key b \<le> key (max_by key b xs)"
proof (induction xs arbitrary: b)
  case Nil
  show ?case by simp
next
  case (Cons x xs)
  show ?case
    using Cons.IH [of "if key b < key x then x else b"] by (auto split: if_splits)
qed

lemma max_by_ge: "y \<in> set (b # xs) \<Longrightarrow> key y \<le> key (max_by key b xs)"
proof (induction xs arbitrary: b)
  case Nil
  then show ?case by simp
next
  case (Cons x xs)
  let ?b = "if key b < key x then x else b"
  have "y = b \<or> y = x \<or> y \<in> set xs" using Cons.prems by auto
  then show ?case
  proof (elim disjE)
    assume "y = b"
    then have "key y \<le> key ?b" by simp
    also have "\<dots> \<le> key (max_by key ?b xs)" by (rule max_by_best)
    finally show ?thesis by simp
  next
    assume "y = x"
    then have "key y \<le> key ?b" by simp
    also have "\<dots> \<le> key (max_by key ?b xs)" by (rule max_by_best)
    finally show ?thesis by simp
  next
    assume "y \<in> set xs"
    then have "y \<in> set (?b # xs)" by simp
    then have "key y \<le> key (max_by key ?b xs)" by (rule Cons.IH)
    then show ?thesis by simp
  qed
qed

lemma rank_value_inverse: "\<forall>r. RANK_TO_VALUE r \<noteq> None \<longrightarrow> RANKS ! nat (rank_value r - 2) = r"
  by code_simp

lemma rank_value_inj:
  "RANK_TO_VALUE r \<noteq> None \<Longrightarrow> RANK_TO_VALUE r' \<noteq> None \<Longrightarrow> rank_value r = rank_value r' \<Longrightarrow> r = r'"
  using rank_value_inverse by metis

lemma max_by_set:
  assumes "set (r # rs) = set (q # qs)" and "\<And>x. x \<in> set (r # rs) \<Longrightarrow> RANK_TO_VALUE x \<noteq> None"
  shows "max_by rank_value r rs = max_by rank_value q qs"
proof -
  let ?m = "max_by rank_value r rs" and ?n = "max_by rank_value q qs"
  have m: "?m \<in> set (r # rs)" by (rule max_by_mem)
  have n: "?n \<in> set (r # rs)" unfolding assms(1) by (rule max_by_mem)
  have "rank_value ?n \<le> rank_value ?m" using n by (rule max_by_ge)
  moreover have "rank_value ?m \<le> rank_value ?n"
    using m unfolding assms(1) by (rule max_by_ge)
  ultimately have "rank_value ?m = rank_value ?n" by simp
  then show ?thesis using rank_value_inj assms(2) m n by blast
qed

lemma high_card_perm:
  assumes "mset rx = mset ry" and "\<not> list_ex (\<lambda>r. RANK_TO_VALUE r = None) rx"
  shows "(case rx of [] \<Rightarrow> Inl ValueError | r # rs \<Rightarrow> Inr (''High Card: '' @ [max_by rank_value r rs])) =
         (case ry of [] \<Rightarrow> Inl ValueError | r # rs \<Rightarrow> Inr (''High Card: '' @ [max_by rank_value r rs]))"
proof (cases rx)
  case Nil
  then show ?thesis using assms(1) by simp
next
  case (Cons r rs)
  then obtain q qs where ry: "ry = q # qs"
    using assms(1) by (cases ry) auto
  have s: "set (r # rs) = set (q # qs)"
    using assms(1) Cons ry by (metis mset_eq_setD)
  have v: "RANK_TO_VALUE x \<noteq> None" if "x \<in> set (r # rs)" for x
    using assms(2) that Cons by (auto simp: list_ex_iff)
  have "max_by rank_value r rs = max_by rank_value q qs"
    using s v by (rule max_by_set)
  then show ?thesis using Cons ry by simp
qed


lemma analyze_hand_mset_eq:
  assumes perm: "mset xs = mset ys" and short: "length xs \<le> 9"
  shows "analyze_hand xs = analyze_hand ys"
proof -
  let ?rank = "\<lambda>c::string. upper_char (c ! 0)"
  let ?suit = "\<lambda>c::string. lower_char (c ! 1)"
  have len: "length xs = length ys"
    using perm by (rule mset_eq_length)
  have sets: "set xs = set ys"
    using perm by (rule mset_eq_setD)
  have ex1: "list_ex (\<lambda>c. length c < 2) xs = list_ex (\<lambda>c. length c < 2) ys"
    by (simp add: list_ex_iff sets)
  have mr: "mset (map ?rank xs) = mset (map ?rank ys)"
    using perm by (metis mset_map)
  have ms: "mset (map ?suit xs) = mset (map ?suit ys)"
    using perm by (metis mset_map)
  have ex2: "list_ex (\<lambda>r. RANK_TO_VALUE r = None) (map ?rank xs) =
             list_ex (\<lambda>r. RANK_TO_VALUE r = None) (map ?rank ys)"
    by (simp add: list_ex_iff sets)
  have cv: "mset (counter_values (Counter (map ?rank xs))) =
            mset (counter_values (Counter (map ?rank ys)))"
    using mr by (rule counter_values_mset)
  have cvset: "set (counter_values (Counter (map ?rank xs))) =
               set (counter_values (Counter (map ?rank ys)))"
    using cv by (rule mset_eq_setD)
  have cvcount: "count_list (counter_values (Counter (map ?rank xs))) 2 =
                 count_list (counter_values (Counter (map ?rank ys))) 2"
    using cv by (metis count_mset)
  have fs: "find_flush_suit (Counter (map ?suit xs)) = find_flush_suit (Counter (map ?suit ys))"
    using ms by (rule find_flush_suit_perm) (simp add: short)
  have gs: "get_straight (map ?rank xs) = get_straight (map ?rank ys)"
    by (rule get_straight_set) (simp add: sets)
  have flen: "length (map ?rank (filter (\<lambda>c. c ! 1 = f) xs)) =
              length (map ?rank (filter (\<lambda>c. c ! 1 = f) ys))" for f
  proof -
    have "mset (filter (\<lambda>c. c ! 1 = f) xs) = mset (filter (\<lambda>c. c ! 1 = f) ys)"
      using perm by (metis mset_filter)
    then show ?thesis by (simp add: mset_eq_length)
  qed
  have fgs: "get_straight (map ?rank (filter (\<lambda>c. c ! 1 = f) xs)) =
             get_straight (map ?rank (filter (\<lambda>c. c ! 1 = f) ys))" for f
    by (rule get_straight_set) (simp add: sets)
  show ?thesis
  proof (cases "list_ex (\<lambda>r. RANK_TO_VALUE r = None) (map ?rank ys)")
    case True
    then show ?thesis
      using ex2 by (simp add: analyze_hand_def Let_def len ex1)
  next
    case False
    then have valid: "\<not> list_ex (\<lambda>r. RANK_TO_VALUE r = None) (map ?rank xs)"
      using ex2 by simp
    have hc: "(case map ?rank xs of [] \<Rightarrow> Inl ValueError
                | r # rs \<Rightarrow> Inr (''High Card: '' @ [max_by rank_value r rs])) =
              (case map ?rank ys of [] \<Rightarrow> Inl ValueError
                | r # rs \<Rightarrow> Inr (''High Card: '' @ [max_by rank_value r rs]))"
      using mr valid by (rule high_card_perm)
    show ?thesis
    proof (cases "find_flush_suit (Counter (map ?suit ys))")
      case None
      show ?thesis
        unfolding analyze_hand_def Let_def
        by (simp only: len ex1 ex2 fs None cvset cvcount gs hc option.case)
    next
      case (Some f)
      show ?thesis
        unfolding analyze_hand_def Let_def
        by (simp only: len ex1 ex2 fs Some cvset cvcount gs hc option.case flen [of f] fgs [of f])
    qed
  qed
qed

text \<open>
  C10 (amended): for every sequence of at most nine cards, \<open>analyze_hand\<close> returns the
  same result, label or exception, on every reordering of the sequence.
\<close>

theorem analyze_hand_permutation:
  assumes perm: "mset xs = mset ys" and short: "length xs \<le> 9"
  shows "analyze_hand xs = analyze_hand ys"
  using perm short by (rule analyze_hand_mset_eq)

theorem analyze_hand_permutation_witness:
  "mset [''As'', ''2h'', ''3d'', ''4c'', ''5s''] = mset [''5s'', ''3d'', ''As'', ''4c'', ''2h''] \<and>
   length [''As'', ''2h'', ''3d'', ''4c'', ''5s''] \<le> 9 \<and>
   analyze_hand [''As'', ''2h'', ''3d'', ''4c'', ''5s''] =
     analyze_hand [''5s'', ''3d'', ''As'', ''4c'', ''2h'']"
proof -
  have p: "mset [''As'', ''2h'', ''3d'', ''4c'', ''5s''] = mset [''5s'', ''3d'', ''As'', ''4c'', ''2h'']"
    by simp
  have l: "length [''As'', ''2h'', ''3d'', ''4c'', ''5s''] \<le> 9"
    by simp
  show ?thesis
    using p l analyze_hand_permutation [OF p l] by blast
qed

text \<open>
  C10 as stated fails: with ten cards two suits can each be held five times, and the
  suit met first in the sequence decides. The same ten cards give Royal Flush with the
  spades first and Flush with the hearts first.
\<close>

theorem analyze_hand_permutation_counterexample:
  "mset [''As'', ''Ks'', ''Qs'', ''Js'', ''Ts'', ''2h'', ''7h'', ''8h'', ''9h'', ''Jh''] =
   mset [''2h'', ''7h'', ''8h'', ''9h'', ''Jh'', ''As'', ''Ks'', ''Qs'', ''Js'', ''Ts''] \<and>
   analyze_hand [''As'', ''Ks'', ''Qs'', ''Js'', ''Ts'', ''2h'', ''7h'', ''8h'', ''9h'', ''Jh''] =
     Inr ''Royal Flush'' \<and>
   analyze_hand [''2h'', ''7h'', ''8h'', ''9h'', ''Jh'', ''As'', ''Ks'', ''Qs'', ''Js'', ''Ts''] =
     Inr ''Flush''"
proof -
  have "mset [''As'', ''Ks'', ''Qs'', ''Js'', ''Ts'', ''2h'', ''7h'', ''8h'', ''9h'', ''Jh''] =
        mset [''2h'', ''7h'', ''8h'', ''9h'', ''Jh'', ''As'', ''Ks'', ''Qs'', ''Js'', ''Ts'']"
    by simp
  moreover have
    "analyze_hand [''As'', ''Ks'', ''Qs'', ''Js'', ''Ts'', ''2h'', ''7h'', ''8h'', ''9h'', ''Jh''] =
       Inr ''Royal Flush''"
    by code_simp
  moreover have
    "analyze_hand [''2h'', ''7h'', ''8h'', ''9h'', ''Jh'', ''As'', ''Ks'', ''Qs'', ''Js'', ''Ts''] =
       Inr ''Flush''"
    by code_simp
  ultimately show ?thesis by blast
qed

section \<open>Straight flushes\<close>

lemma straight_flushes_in_order:
  "list_all (\<lambda>u.
     analyze_hand (map (\<lambda>r. [r, u]) ''AKQJT'') = Inr ''Royal Flush'' \<and>
     list_all (\<lambda>rs. analyze_hand (map (\<lambda>r. [r, u]) rs) = Inr ''Straight Flush'')
       [''KQJT9'', ''QJT98'', ''JT987'', ''T9876'', ''98765'', ''87654'', ''76543'', ''65432'',
        ''5432A'']) ''shdc''"
  by code_simp

text \<open>
  C2 as stated fails: the ace-high straight flush is not labelled Straight Flush.
\<close>

theorem analyze_hand_ace_high_counterexample:
  "analyze_hand [''As'', ''Ks'', ''Qs'', ''Js'', ''Ts''] \<noteq> Inr ''Straight Flush''"
  by code_simp

text \<open>
  C2 (amended): five cards of one suit, given by their codes with the rank in upper case
  and the suit in lower case, in any order. If the ranks are A K Q J T, as in As Ks Qs Js
  Ts, the label is Royal Flush, a tenth label beside the nine categories. If they are
  five consecutive ranks whose highest is not the ace, from K Q J T 9 down to the wheel
  5 4 3 2 A, the label is Straight Flush.
\<close>

theorem analyze_hand_royal_flush:
  assumes suit: "u \<in> set ''shdc''"
    and cards: "mset cards = mset (map (\<lambda>r. [r, u]) rs)"
  shows "(rs = ''AKQJT'' \<longrightarrow> analyze_hand cards = Inr ''Royal Flush'') \<and>
         (rs \<in> set [''KQJT9'', ''QJT98'', ''JT987'', ''T9876'', ''98765'', ''87654'', ''76543'',
                    ''65432'', ''5432A''] \<longrightarrow>
          analyze_hand cards = Inr ''Straight Flush'')"
proof (intro conjI impI)
  assume rs: "rs = ''AKQJT''"
  have "length cards \<le> 9"
    using mset_eq_length [OF cards] rs by simp
  with cards have "analyze_hand cards = analyze_hand (map (\<lambda>r. [r, u]) rs)"
    by (rule analyze_hand_mset_eq)
  also have "\<dots> = Inr ''Royal Flush''"
    using straight_flushes_in_order suit unfolding rs list_all_iff by blast
  finally show "analyze_hand cards = Inr ''Royal Flush''" .
next
  let ?straights = "[''KQJT9'', ''QJT98'', ''JT987'', ''T9876'', ''98765'', ''87654'', ''76543'',
                     ''65432'', ''5432A'']"
  assume rs: "rs \<in> set ?straights"
  have "list_all (\<lambda>rs. length rs = 5) ?straights" by simp
  then have "length rs = 5" using rs unfolding list_all_iff by blast
  then have "length cards \<le> 9"
    using mset_eq_length [OF cards] by simp
  with cards have "analyze_hand cards = analyze_hand (map (\<lambda>r. [r, u]) rs)"
    by (rule analyze_hand_mset_eq)
  also have "\<dots> = Inr ''Straight Flush''"
    using straight_flushes_in_order suit rs unfolding list_all_iff by blast
  finally show "analyze_hand cards = Inr ''Straight Flush''" .
qed

theorem analyze_hand_royal_flush_witness:
  "analyze_hand [''Ts'', ''As'', ''Qs'', ''Ks'', ''Js''] = Inr ''Royal Flush'' \<and>
   analyze_hand [''Td'', ''9d'', ''Kd'', ''Jd'', ''Qd''] = Inr ''Straight Flush'' \<and>
   analyze_hand [''3h'', ''Ah'', ''5h'', ''2h'', ''4h''] = Inr ''Straight Flush''"
proof -
  have s: "CHR ''s'' \<in> set ''shdc''" and d: "CHR ''d'' \<in> set ''shdc''"
    and h: "CHR ''h'' \<in> set ''shdc''"
    by simp_all
  have 1: "mset [''Ts'', ''As'', ''Qs'', ''Ks'', ''Js''] = mset (map (\<lambda>r. [r, CHR ''s'']) ''AKQJT'')"
    by simp
  have 2: "mset [''Td'', ''9d'', ''Kd'', ''Jd'', ''Qd''] = mset (map (\<lambda>r. [r, CHR ''d'']) ''KQJT9'')"
    by simp
  have 3: "mset [''3h'', ''Ah'', ''5h'', ''2h'', ''4h''] = mset (map (\<lambda>r. [r, CHR ''h'']) ''5432A'')"
    by simp
  show ?thesis
    using analyze_hand_royal_flush [OF s 1] analyze_hand_royal_flush [OF d 2]
      analyze_hand_royal_flush [OF h 3]
    by simp
qed

section \<open>Dealing from the deck\<close>

lemma map_err_Cons_Inr:
  "map_err f (x # xs) = Inr ys \<Longrightarrow> \<exists>y ys'. f x = Inr y \<and> map_err f xs = Inr ys' \<and> ys = y # ys'"
  by (cases "f x"; cases "map_err f xs") auto

lemma map_err_length: "map_err f xs = Inr ys \<Longrightarrow> length ys = length xs"
proof (induction xs arbitrary: ys)
  case Nil
  then show ?case by simp
next
  case (Cons x xs)
  from map_err_Cons_Inr [OF Cons.prems] obtain y ys' where
    "map_err f xs = Inr ys'" "ys = y # ys'" by blast
  then show ?case using Cons.IH by simp
qed

lemma map_err_append:
  "map_err f xs = Inr as \<Longrightarrow> map_err f ys = Inr bs \<Longrightarrow> map_err f (xs @ ys) = Inr (as @ bs)"
proof (induction xs arbitrary: as)
  case Nil
  then show ?case by simp
next
  case (Cons x xs)
  from map_err_Cons_Inr [OF Cons.prems(1)] obtain y ys' where
    h: "f x = Inr y" "map_err f xs = Inr ys'" "as = y # ys'" by blast
  show ?case using Cons.IH [OF h(2) Cons.prems(2)] h by simp
qed

lemma Card_new_in_deck: "Card_new s = Inr x \<Longrightarrow> x \<in> set GetFullDeck"
  unfolding GetFullDeck_def set_card_product
  by (auto simp: Card_new_def split: list.splits if_splits)

lemma to_deuces_in_deck: "to_deuces c = Inr x \<Longrightarrow> x \<in> set GetFullDeck"
  by (auto simp: to_deuces_def split: if_splits dest: Card_new_in_deck)

lemma map_err_to_deuces_in_deck: "map_err to_deuces cs = Inr known \<Longrightarrow> set known \<subseteq> set GetFullDeck"
proof (induction cs arbitrary: known)
  case Nil
  then show ?case by simp
next
  case (Cons c cs)
  from map_err_Cons_Inr [OF Cons.prems] obtain y ys' where
    h: "to_deuces c = Inr y" "map_err to_deuces cs = Inr ys'" "known = y # ys'" by blast
  show ?case using Cons.IH [OF h(2)] h to_deuces_in_deck by simp
qed

lemma GetFullDeck_52: "distinct GetFullDeck \<and> length GetFullDeck = 52"
  by code_simp

lemma shuffled_deck:
  assumes "mset shuffled = mset GetFullDeck"
  shows "distinct shuffled" "length shuffled = 52" "set shuffled = set GetFullDeck"
proof -
  show "distinct shuffled"
    using assms GetFullDeck_52 by (metis mset_eq_imp_distinct_iff)
  show "length shuffled = 52"
    using assms GetFullDeck_52 by (metis mset_eq_length)
  show "set shuffled = set GetFullDeck"
    using assms by (rule mset_eq_setD)
qed

lemma list_remove_eq:
  "list_remove x xs = (if x \<in> set xs then Inr (remove1 x xs) else Inl ValueError)"
  by (induction xs) auto

lemma remove_known_success:
  assumes "map_err to_deuces cs = Inr known" "distinct known" "set known \<subseteq> set cards"
    "distinct cards"
  shows "\<exists>cards'. remove_known cs cards = Inr cards' \<and> distinct cards' \<and>
           set cards' = set cards - set known \<and> length cards' = length cards - length known"
  using assms
proof (induction cs arbitrary: known cards)
  case Nil
  then show ?case by simp
next
  case (Cons c cs)
  from map_err_Cons_Inr [OF Cons.prems(1)] obtain y ys' where
    h: "to_deuces c = Inr y" "map_err to_deuces cs = Inr ys'" "known = y # ys'" by blast
  have y: "y \<in> set cards" "y \<notin> set ys'" "distinct ys'"
    using Cons.prems(2,3) h(3) by auto
  let ?cards = "remove1 y cards"
  have d: "distinct ?cards" using Cons.prems(4) by simp
  have s: "set ?cards = set cards - {y}" using Cons.prems(4) by simp
  have sub: "set ys' \<subseteq> set ?cards" using Cons.prems(3) h(3) y s by auto
  from Cons.IH [OF h(2) y(3) sub d] obtain cards' where
    r: "remove_known cs ?cards = Inr cards'" "distinct cards'"
       "set cards' = set ?cards - set ys'" "length cards' = length ?cards - length ys'"
    by blast
  have "remove_known (c # cs) cards = Inr cards'"
    using h(1) y(1) r(1) by (simp add: list_remove_eq)
  moreover have "set cards' = set cards - set known"
    using r(3) s h(3) by auto
  moreover have "length cards' = length cards - length known"
    using r(4) y(1) h(3) by (simp add: length_remove1)
  ultimately show ?case using r(2) by blast
qed

lemma draw_list_eq:
  "draw_list n cards =
     (if n \<le> length cards then Inr (take n cards, drop n cards) else Inl EmptyDeckError)"
proof (induction n arbitrary: cards)
  case 0
  show ?case by simp
next
  case (Suc n)
  show ?case
    by (cases cards) (simp_all add: draw_def Suc.IH)
qed

lemma complete_board_eq:
  assumes "length board \<le> 5" "5 - length board \<le> length cards"
  shows "complete_board board cards =
           Inr (board @ take (5 - length board) cards, drop (5 - length board) cards)"
proof (cases "length board = 5")
  case True
  then show ?thesis by (simp add: complete_board_def)
next
  case False
  then have "0 < 5 - int (length board)" using assms(1) by simp
  moreover have "nat (5 - int (length board)) = 5 - length board" by simp
  ultimately show ?thesis
    using assms(2) by (simp add: complete_board_def draw_list_eq)
qed

lemma deal_opponents_success:
  "2 * n \<le> length cards \<Longrightarrow>
   \<exists>opp_hands rest. deal_opponents n cards = Inr (opp_hands, rest) \<and> length opp_hands = n \<and>
     list_all (\<lambda>h. length h = 2) opp_hands \<and> length rest = length cards - 2 * n"
proof (induction n arbitrary: cards)
  case 0
  then show ?case by simp
next
  case (Suc n)
  then obtain c1 c2 cs where c: "cards = c1 # c2 # cs"
    by (cases cards; cases "tl cards") auto
  then have "2 * n \<le> length cs" using Suc.prems by simp
  from Suc.IH [OF this] obtain opp_hands rest where
    r: "deal_opponents n cs = Inr (opp_hands, rest)" "length opp_hands = n"
       "list_all (\<lambda>h. length h = 2) opp_hands" "length rest = length cs - 2 * n"
    by blast
  have "deal_opponents (Suc n) cards = Inr ([c1, c2] # opp_hands, rest)"
    using c r(1) by (simp add: draw_def)
  then show ?case using r c by simp
qed

lemma map_err_evaluate:
  assumes "length sim_board = 5" "list_all (\<lambda>h. length h = 2) opp_hands"
  shows "map_err (evaluate ev sim_board) opp_hands = Inr (map (ev sim_board) opp_hands)"
  using assms(2) by (induction opp_hands) (simp_all add: evaluate_def assms(1))

lemma compare_scores_eq:
  assumes "opp_scores \<noteq> []"
  shows "compare_scores hero_score opp_scores =
           Inr (if hero_score < Min (set opp_scores) then Win
                else if hero_score = Min (set opp_scores) then Tie else Loss)"
proof -
  obtain x xs where xs: "opp_scores = x # xs" using assms by (cases opp_scores) auto
  have "py_min opp_scores = Inr (Min (set opp_scores))"
    unfolding xs using Min.set_eq_fold [of x xs] by simp
  then show ?thesis by (simp add: compare_scores_def)
qed


lemma odds_deal_success:
  assumes hand: "map_err to_deuces hand_cards = Inr hand" "length hand = 2"
    and board: "map_err to_deuces board_cards = Inr board" "length board \<le> 5"
    and known: "distinct (hand @ board)"
    and deck: "mset shuffled = mset GetFullDeck"
    and opps: "2 * nat (num_players - 1) \<le> 45"
  shows "\<exists>sim_board opp_hands rest.
           odds_deal shuffled hand_cards board_cards board num_players =
             Inr (sim_board, opp_hands, rest) \<and>
           length sim_board = 5 \<and> length opp_hands = nat (num_players - 1) \<and>
           list_all (\<lambda>h. length h = 2) opp_hands \<and>
           length rest = 45 - 2 * nat (num_players - 1)"
proof -
  have k: "map_err to_deuces (hand_cards @ board_cards) = Inr (hand @ board)"
    using hand(1) board(1) by (rule map_err_append)
  have sub: "set (hand @ board) \<subseteq> set shuffled"
    using map_err_to_deuces_in_deck [OF k] shuffled_deck(3) [OF deck] by simp
  from remove_known_success [OF k known sub shuffled_deck(1) [OF deck]]
  obtain cards where c: "remove_known (hand_cards @ board_cards) shuffled = Inr cards"
    "length cards = length shuffled - length (hand @ board)"
    by blast
  have lc: "length cards = 50 - length board"
    using c(2) shuffled_deck(2) [OF deck] hand(2) by simp
  have enough: "5 - length board \<le> length cards"
    using lc board(2) by simp
  let ?sim = "board @ take (5 - length board) cards"
  let ?cards = "drop (5 - length board) cards"
  have cb: "complete_board board cards = Inr (?sim, ?cards)"
    using board(2) enough by (rule complete_board_eq)
  have ls: "length ?sim = 5" using enough board(2) by simp
  have l45: "length ?cards = 45" using lc board(2) by simp
  then have "2 * nat (num_players - 1) \<le> length ?cards" using opps by simp
  from deal_opponents_success [OF this] obtain opp_hands rest where
    d: "deal_opponents (nat (num_players - 1)) ?cards = Inr (opp_hands, rest)"
       "length opp_hands = nat (num_players - 1)" "list_all (\<lambda>h. length h = 2) opp_hands"
       "length rest = length ?cards - 2 * nat (num_players - 1)"
    by blast
  have "odds_deal shuffled hand_cards board_cards board num_players = Inr (?sim, opp_hands, rest)"
    by (simp add: odds_deal_def c(1) cb d(1))
  then show ?thesis using ls d(2,3,4) l45 by auto
qed

lemma odds_trial_outcome:
  assumes hand: "map_err to_deuces hand_cards = Inr hand" "length hand = 2"
    and board: "map_err to_deuces board_cards = Inr board" "length board \<le> 5"
    and known: "distinct (hand @ board)"
    and deck: "mset shuffled = mset GetFullDeck"
    and players: "2 \<le> num_players" "num_players \<le> 23"
  shows "\<exists>sim_board opp_hands rest.
           odds_deal shuffled hand_cards board_cards board num_players =
             Inr (sim_board, opp_hands, rest) \<and>
           length sim_board = 5 \<and> length opp_hands = nat (num_players - 1) \<and>
           odds_trial ev shuffled hand_cards board_cards hand board num_players =
             Inr (if ev sim_board hand < Min (set (map (ev sim_board) opp_hands)) then Win
                  else if ev sim_board hand = Min (set (map (ev sim_board) opp_hands)) then Tie
                  else Loss)"
proof -
  have "2 * nat (num_players - 1) \<le> 45" using players by simp
  from odds_deal_success [OF hand board known deck this] obtain sim_board opp_hands rest where
    d: "odds_deal shuffled hand_cards board_cards board num_players = Inr (sim_board, opp_hands, rest)"
       "length sim_board = 5" "length opp_hands = nat (num_players - 1)"
       "list_all (\<lambda>h. length h = 2) opp_hands"
    by blast
  have e: "evaluate ev sim_board hand = Inr (ev sim_board hand)"
    using d(2) hand(2) by (simp add: evaluate_def)
  have m: "map_err (evaluate ev sim_board) opp_hands = Inr (map (ev sim_board) opp_hands)"
    using d(2,4) by (rule map_err_evaluate)
  have "opp_hands \<noteq> []" using d(3) players(1) by auto
  then have ne: "map (ev sim_board) opp_hands \<noteq> []" by simp
  have "odds_trial ev shuffled hand_cards board_cards hand board num_players =
          Inr (if ev sim_board hand < Min (set (map (ev sim_board) opp_hands)) then Win
               else if ev sim_board hand = Min (set (map (ev sim_board) opp_hands)) then Tie
               else Loss)"
    unfolding odds_trial_def d(1) using e m compare_scores_eq [OF ne] by simp
  then show ?thesis using d(1,2,3) by blast
qed

lemma for_range_tally:
  assumes "\<And>k. \<exists>out. f k = Inr out"
  shows "\<exists>w t l. for_range i n (\<lambda>k counts. and_then (f k) (\<lambda>out. Inr (tally out counts)))
                    (w0, t0, l0) = Inr (w, t, l) \<and>
           w = w0 + length (filter (\<lambda>k. f k = Inr Win) [i..<i + n]) \<and>
           t = t0 + length (filter (\<lambda>k. f k = Inr Tie) [i..<i + n]) \<and>
           l = l0 + length (filter (\<lambda>k. f k = Inr Loss) [i..<i + n]) \<and>
           w + t + l = w0 + t0 + l0 + n"
proof (induction n arbitrary: i w0 t0 l0)
  case 0
  show ?case by simp
next
  case (Suc n)
  obtain out where out: "f i = Inr out" using assms by blast
  obtain w1 t1 l1 where t1: "tally out (w0, t0, l0) = (w1, t1, l1)"
    by (cases "tally out (w0, t0, l0)") auto
  from Suc.IH [of "Suc i" w1 t1 l1] obtain w t l where
    r: "for_range (Suc i) n (\<lambda>k counts. and_then (f k) (\<lambda>out. Inr (tally out counts)))
          (w1, t1, l1) = Inr (w, t, l)"
       "w = w1 + length (filter (\<lambda>k. f k = Inr Win) [Suc i..<Suc i + n])"
       "t = t1 + length (filter (\<lambda>k. f k = Inr Tie) [Suc i..<Suc i + n])"
       "l = l1 + length (filter (\<lambda>k. f k = Inr Loss) [Suc i..<Suc i + n])"
       "w + t + l = w1 + t1 + l1 + n"
    by blast
  have u: "[i..<i + Suc n] = i # [Suc i..<Suc i + n]"
    by (simp add: upt_conv_Cons)
  have "for_range i (Suc n) (\<lambda>k counts. and_then (f k) (\<lambda>out. Inr (tally out counts)))
          (w0, t0, l0) = Inr (w, t, l)"
    using out t1 r(1) by simp
  moreover have "w = w0 + length (filter (\<lambda>k. f k = Inr Win) [i..<i + Suc n]) \<and>
           t = t0 + length (filter (\<lambda>k. f k = Inr Tie) [i..<i + Suc n]) \<and>
           l = l0 + length (filter (\<lambda>k. f k = Inr Loss) [i..<i + Suc n]) \<and>
           w + t + l = w0 + t0 + l0 + Suc n"
    unfolding u using r(2,3,4,5) out t1 by (cases out) auto
  ultimately show ?case by blast
qed

lemma percentages:
  fixes n :: int
  assumes "w + t + l = nat n" "1 \<le> n"
  shows "100 * of_nat w / of_int n + 100 * of_nat t / of_int n + 100 * of_nat l / of_int n = (100::rat)"
    and "0 \<le> 100 * of_nat w / (of_int n :: rat)" and "100 * of_nat w / (of_int n :: rat) \<le> 100"
proof -
  have n: "(of_int n :: rat) = of_nat w + of_nat t + of_nat l"
  proof -
    have "n = int (w + t + l)" using assms by simp
    then show ?thesis by simp
  qed
  have pos: "(0::rat) < of_int n" using assms(2) by simp
  have "100 * of_nat w / of_int n + 100 * of_nat t / of_int n + 100 * of_nat l / of_int n =
        100 * (of_nat w + of_nat t + of_nat l) / (of_int n :: rat)"
    by (simp add: add_divide_distrib distrib_left)
  also have "\<dots> = 100 * of_int n / (of_int n :: rat)"
    by (simp only: n)
  also have "\<dots> = 100"
    using pos by simp
  finally show "100 * of_nat w / of_int n + 100 * of_nat t / of_int n + 100 * of_nat l / of_int n = (100::rat)" .
  show "0 \<le> 100 * of_nat w / (of_int n :: rat)" using pos by simp
  have "(of_nat w :: rat) \<le> of_int n" by (simp add: n)
  then show "100 * of_nat w / (of_int n :: rat) \<le> 100"
    using pos by (simp add: field_simps)
qed


text \<open>
  C1 (amended): for a hand of 2 cards, a board of 0, 3, 4 or 5 cards, all distinct, with
  \<open>2 \<le> num_players \<le> 23\<close> and \<open>num_trials \<ge> 1\<close>, every trial deals a five-card board
  and \<open>num_players - 1\<close> opponent hands and returns exactly one outcome: Win if the
  hero's rank is strictly below (stronger than) the least opponent rank, Tie if equal, Loss
  otherwise. The counters count the trials of each outcome, so
  \<open>wins + ties + losses = num_trials\<close>, the three percentages add up to 100 and each lies
  between 0 and 100 (in exact arithmetic).
\<close>

theorem monte_carlo_odds_outcomes:
  assumes hand: "map_err to_deuces hand_cards = Inr hand" "length hand = 2"
    and board: "map_err to_deuces board_cards = Inr board" "length board \<in> {0, 3, 4, 5}"
    and known: "distinct (hand @ board)"
    and decks: "\<And>i. mset (decks i) = mset GetFullDeck"
    and players: "2 \<le> num_players" "num_players \<le> 23"
    and trials: "1 \<le> num_trials"
  shows "(\<forall>i. \<exists>sim_board opp_hands rest.
            odds_deal (decks i) hand_cards board_cards board num_players =
              Inr (sim_board, opp_hands, rest) \<and>
            length sim_board = 5 \<and> length opp_hands = nat (num_players - 1) \<and>
            odds_trial ev (decks i) hand_cards board_cards hand board num_players =
              Inr (if ev sim_board hand < Min (set (map (ev sim_board) opp_hands)) then Win
                   else if ev sim_board hand = Min (set (map (ev sim_board) opp_hands)) then Tie
                   else Loss)) \<and>
         (\<exists>wins ties losses.
            odds_counts ev decks hand_cards board_cards num_players num_trials =
              Inr (wins, ties, losses) \<and>
            wins = length (filter (\<lambda>i. odds_trial ev (decks i) hand_cards board_cards hand board
                       num_players = Inr Win) [0..<nat num_trials]) \<and>
            ties = length (filter (\<lambda>i. odds_trial ev (decks i) hand_cards board_cards hand board
                       num_players = Inr Tie) [0..<nat num_trials]) \<and>
            losses = length (filter (\<lambda>i. odds_trial ev (decks i) hand_cards board_cards hand board
                       num_players = Inr Loss) [0..<nat num_trials]) \<and>
            wins + ties + losses = nat num_trials \<and>
            monte_carlo_odds ev decks hand_cards board_cards num_players num_trials =
              Inr (100 * of_nat wins / of_int num_trials, 100 * of_nat ties / of_int num_trials) \<and>
            100 * of_nat wins / of_int num_trials + 100 * of_nat ties / of_int num_trials +
              100 * of_nat losses / of_int num_trials = (100::rat) \<and>
            0 \<le> 100 * of_nat wins / (of_int num_trials :: rat) \<and>
            100 * of_nat wins / (of_int num_trials :: rat) \<le> 100 \<and>
            0 \<le> 100 * of_nat ties / (of_int num_trials :: rat) \<and>
            100 * of_nat ties / (of_int num_trials :: rat) \<le> 100 \<and>
            0 \<le> 100 * of_nat losses / (of_int num_trials :: rat) \<and>
            100 * of_nat losses / (of_int num_trials :: rat) \<le> 100)"
proof -
  have b5: "length board \<le> 5" using board(2) by auto
  let ?f = "\<lambda>i. odds_trial ev (decks i) hand_cards board_cards hand board num_players"
  have each: "\<exists>sim_board opp_hands rest.
            odds_deal (decks i) hand_cards board_cards board num_players =
              Inr (sim_board, opp_hands, rest) \<and>
            length sim_board = 5 \<and> length opp_hands = nat (num_players - 1) \<and>
            ?f i =
              Inr (if ev sim_board hand < Min (set (map (ev sim_board) opp_hands)) then Win
                   else if ev sim_board hand = Min (set (map (ev sim_board) opp_hands)) then Tie
                   else Loss)" for i
    using hand board(1) b5 known decks players by (rule odds_trial_outcome)
  have ret: "\<exists>out. ?f k = Inr out" for k
    using each [of k] by blast
  from for_range_tally [of ?f 0 "nat num_trials" 0 0 0, OF ret]
  obtain w t l where
    r: "for_range 0 (nat num_trials) (\<lambda>k counts. and_then (?f k) (\<lambda>out. Inr (tally out counts)))
          (0, 0, 0) = Inr (w, t, l)"
       "w = length (filter (\<lambda>k. ?f k = Inr Win) [0..<nat num_trials])"
       "t = length (filter (\<lambda>k. ?f k = Inr Tie) [0..<nat num_trials])"
       "l = length (filter (\<lambda>k. ?f k = Inr Loss) [0..<nat num_trials])"
       "w + t + l = nat num_trials"
    by auto
  have c: "odds_counts ev decks hand_cards board_cards num_players num_trials = Inr (w, t, l)"
    by (simp add: odds_counts_def hand(1) board(1) r(1))
  have m: "monte_carlo_odds ev decks hand_cards board_cards num_players num_trials =
             Inr (100 * of_nat w / of_int num_trials, 100 * of_nat t / of_int num_trials)"
    using trials by (simp add: monte_carlo_odds_def c)
  have s1: "w + t + l = nat num_trials" by (rule r(5))
  have s2: "t + w + l = nat num_trials" using r(5) by simp
  have s3: "l + t + w = nat num_trials" using r(5) by simp
  note p1 = percentages [OF s1 trials] and p2 = percentages [OF s2 trials]
    and p3 = percentages [OF s3 trials]
  have "odds_counts ev decks hand_cards board_cards num_players num_trials = Inr (w, t, l) \<and>
        w = length (filter (\<lambda>k. ?f k = Inr Win) [0..<nat num_trials]) \<and>
        t = length (filter (\<lambda>k. ?f k = Inr Tie) [0..<nat num_trials]) \<and>
        l = length (filter (\<lambda>k. ?f k = Inr Loss) [0..<nat num_trials]) \<and>
        w + t + l = nat num_trials \<and>
        monte_carlo_odds ev decks hand_cards board_cards num_players num_trials =
          Inr (100 * of_nat w / of_int num_trials, 100 * of_nat t / of_int num_trials) \<and>
        100 * of_nat w / of_int num_trials + 100 * of_nat t / of_int num_trials +
          100 * of_nat l / of_int num_trials = (100::rat) \<and>
        0 \<le> 100 * of_nat w / (of_int num_trials :: rat) \<and>
        100 * of_nat w / (of_int num_trials :: rat) \<le> 100 \<and>
        0 \<le> 100 * of_nat t / (of_int num_trials :: rat) \<and>
        100 * of_nat t / (of_int num_trials :: rat) \<le> 100 \<and>
        0 \<le> 100 * of_nat l / (of_int num_trials :: rat) \<and>
        100 * of_nat l / (of_int num_trials :: rat) \<le> 100"
    using c r(2,3,4,5) m p1 p2(2,3) p3(2,3) by (intro conjI)
  then show ?thesis using each by blast
qed

text \<open>
  C1 as stated fails: with 24 players the 45 cards left after the hero's two and the
  board's five do not cover 23 opponent hands, and the first trial raises instead of
  assigning an outcome.
\<close>

theorem monte_carlo_odds_many_players_counterexample:
  "length [''As'', ''Kd''] = 2 \<and> length ([] :: string list) = 0 \<and> (2::int) \<le> 24 \<and> (1::int) \<le> 1 \<and>
   mset GetFullDeck = mset GetFullDeck \<and>
   odds_counts (\<lambda>board hand. 1) (\<lambda>i. GetFullDeck) [''As'', ''Kd''] [] 24 1 = Inl EmptyDeckError \<and>
   monte_carlo_odds (\<lambda>board hand. 1) (\<lambda>i. GetFullDeck) [''As'', ''Kd''] [] 24 1 = Inl EmptyDeckError"
  by code_simp

theorem monte_carlo_odds_outcomes_witness:
  "\<exists>wins ties losses.
     odds_counts (\<lambda>board hand. 1) (\<lambda>i. GetFullDeck) [''As'', ''Kd''] [''2c'', ''7h'', ''Ts''] 3 4 =
       Inr (wins, ties, losses) \<and>
     wins + ties + losses = 4 \<and>
     100 * of_nat wins / of_int 4 + 100 * of_nat ties / of_int 4 + 100 * of_nat losses / of_int 4 =
       (100::rat)"
proof -
  have h: "map_err to_deuces [''As'', ''Kd''] = Inr [''As'', ''Kd'']" by code_simp
  have b: "map_err to_deuces [''2c'', ''7h'', ''Ts''] = Inr [''2c'', ''7h'', ''Ts'']" by code_simp
  have hl: "length [''As'', ''Kd''] = 2" by simp
  have bl: "length [''2c'', ''7h'', ''Ts''] \<in> {0, 3, 4, 5}" by simp
  have d: "distinct ([''As'', ''Kd''] @ [''2c'', ''7h'', ''Ts''])" by simp
  have "nat 4 = 4" by simp
  then show ?thesis
    using monte_carlo_odds_outcomes [OF h hl b bl d, of "\<lambda>i. GetFullDeck" 3 4 "\<lambda>board hand. 1"]
    by (simp only:) auto
qed

section \<open>The deck is never exhausted\<close>

lemma full_counts_new: "full_counts new_counts"
  by (simp add: full_counts_def new_counts_def)

lemma count_up_success:
  assumes "full_counts d" "1 \<le> k" "k \<le> 9"
  shows "\<exists>d'. count_up d k = Inr d' \<and> full_counts d'"
proof -
  have "k \<in> {1, 2, 3, 4, 5, 6, 7, 8, 9}" using assms(2,3) by auto
  then obtain n where n: "d k = Some n"
    using assms(1) by (auto simp: full_counts_def)
  have "full_counts (d(k \<mapsto> n + 1))"
    using assms(1) by (simp add: full_counts_def)
  then show ?thesis by (simp add: count_up_def n)
qed

lemma for_range_invariant:
  assumes "I st" and "\<And>k st. I st \<Longrightarrow> \<exists>st'. body k st = Inr st' \<and> I st'"
  shows "\<exists>st'. for_range i n body st = Inr st' \<and> I st'"
  using assms(1)
proof (induction n arbitrary: i st)
  case 0
  then show ?case by simp
next
  case (Suc n)
  from assms(2) [OF Suc.prems, of i] obtain st1 where s: "body i st = Inr st1" "I st1" by blast
  from Suc.IH [OF s(2), of "Suc i"] show ?case using s(1) by simp
qed

lemma preflop_trial_success:
  assumes hand: "map_err to_deuces hand_cards = Inr hand" "length hand = 2" "distinct hand"
    and deck: "mset shuffled = mset GetFullDeck"
    and players: "2 \<le> num_players" "num_players \<le> 23"
    and classes: "\<And>r. 1 \<le> rc r \<and> rc r \<le> 9"
    and st: "full_counts fc" "full_counts tc" "full_counts vc"
  shows "\<exists>fc' tc' vc' win' tie'.
           preflop_trial ev rc shuffled hand_cards hand num_players (fc, tc, vc, win, tie) =
             Inr (fc', tc', vc', win', tie') \<and>
           full_counts fc' \<and> full_counts tc' \<and> full_counts vc'"
proof -
  have sub: "set hand \<subseteq> set shuffled"
    using map_err_to_deuces_in_deck [OF hand(1)] shuffled_deck(3) [OF deck] by simp
  from remove_known_success [OF hand(1) hand(3) sub shuffled_deck(1) [OF deck]]
  obtain cards where c: "remove_known hand_cards shuffled = Inr cards"
    "length cards = length shuffled - length hand"
    by blast
  have lc: "length cards = 50"
    using c(2) shuffled_deck(2) [OF deck] hand(2) by simp
  then have "Suc (Suc (Suc (Suc (Suc 0)))) \<le> length cards" by simp
  then obtain c1 c2 c3 c4 c5 rest where cs: "cards = c1 # c2 # c3 # c4 # c5 # rest"
    by (auto simp: Suc_le_length_iff)
  have lr: "length rest = 45" using lc cs by simp
  let ?flop = "[c1, c2, c3]" and ?turn = "[c1, c2, c3, c4]" and ?river = "[c1, c2, c3, c4, c5]"
  have d3: "draw_list 3 cards = Inr (?flop, c4 # c5 # rest)"
    by (simp add: draw_list_eq cs)
  have e1: "evaluate ev ?flop hand = Inr (ev ?flop hand)"
    and e2: "evaluate ev ?turn hand = Inr (ev ?turn hand)"
    and e3: "evaluate ev ?river hand = Inr (ev ?river hand)"
    using hand(2) by (simp_all add: evaluate_def)
  from count_up_success [OF st(1)] classes obtain fc' where
    f: "count_up fc (rc (ev ?flop hand)) = Inr fc'" "full_counts fc'" by blast
  from count_up_success [OF st(2)] classes obtain tc' where
    t: "count_up tc (rc (ev ?turn hand)) = Inr tc'" "full_counts tc'" by blast
  from count_up_success [OF st(3)] classes obtain vc' where
    v: "count_up vc (rc (ev ?river hand)) = Inr vc'" "full_counts vc'" by blast
  have "2 * nat (num_players - 1) \<le> length rest" using players lr by simp
  from deal_opponents_success [OF this] obtain opp_hands rest' where
    d: "deal_opponents (nat (num_players - 1)) rest = Inr (opp_hands, rest')"
       "length opp_hands = nat (num_players - 1)" "list_all (\<lambda>h. length h = 2) opp_hands"
    by blast
  have m: "map_err (evaluate ev ?river) opp_hands = Inr (map (ev ?river) opp_hands)"
    by (rule map_err_evaluate) (simp_all add: d(3))
  have "opp_hands \<noteq> []" using d(2) players(1) by auto
  then have ne: "map (ev ?river) opp_hands \<noteq> []" by simp
  from compare_scores_eq [OF ne] obtain out where
    o: "compare_scores (ev ?river hand) (map (ev ?river) opp_hands) = Inr out" by blast
  have "preflop_trial ev rc shuffled hand_cards hand num_players (fc, tc, vc, win, tie) =
          Inr (fc', tc', vc', (if out = Win then win + 1 else win),
               (if out = Tie then tie + 1 else tie))"
    by (simp add: preflop_trial_def c(1) d3 e1 f(1) draw_def e2 t(1) e3 v(1) d(1) m o)
  then show ?thesis using f(2) t(2) v(2) by blast
qed

lemma monte_carlo_preflop_distributions_success:
  assumes hand: "map_err to_deuces hand_cards = Inr hand" "length hand = 2" "distinct hand"
    and decks: "\<And>i. mset (decks i) = mset GetFullDeck"
    and players: "2 \<le> num_players" "num_players \<le> 23"
    and classes: "\<And>r. 1 \<le> rc r \<and> rc r \<le> 9"
  shows "\<exists>r. monte_carlo_preflop_distributions ev rc decks hand_cards num_players num_trials = Inr r"
proof -
  let ?I = "\<lambda>st. case st of (fc, tc, vc, win, tie) \<Rightarrow>
              full_counts fc \<and> full_counts tc \<and> full_counts vc"
  let ?body = "\<lambda>i. preflop_trial ev rc (decks i) hand_cards hand num_players"
  have step: "\<exists>st'. ?body k st = Inr st' \<and> ?I st'" if "?I st" for k st
  proof -
    obtain fc tc vc win tie where s: "st = (fc, tc, vc, win, tie)"
      by (cases st) auto
    have i: "full_counts fc" "full_counts tc" "full_counts vc" using that s by auto
    have "\<exists>fc' tc' vc' win' tie'.
           preflop_trial ev rc (decks k) hand_cards hand num_players (fc, tc, vc, win, tie) =
             Inr (fc', tc', vc', win', tie') \<and>
           full_counts fc' \<and> full_counts tc' \<and> full_counts vc'"
      using hand decks players classes i by (rule preflop_trial_success)
    then show ?thesis unfolding s by auto
  qed
  have init: "?I (new_counts, new_counts, new_counts, 0, 0)"
    by (simp add: full_counts_new)
  from for_range_invariant [of ?I _ ?body, OF init step]
  obtain st' where "for_range 0 (nat num_trials) ?body (new_counts, new_counts, new_counts, 0, 0)
                      = Inr st'"
    by blast
  then show ?thesis
    by (simp add: monte_carlo_preflop_distributions_def hand(1) del: split_paired_Ex)
qed


text \<open>
  C8: with 1 to 9 opponents, a hand of 2 cards and a board of 0, 3, 4 or 5 known cards,
  the cards a trial draws (board completion plus two per opponent) never exceed the cards
  left after hand and board are taken from the 52; at least 27 cards remain after the
  deal, so \<open>draw\<close> never meets an empty deck: every trial of \<open>monte_carlo_odds\<close>
  returns an outcome, and \<open>monte_carlo_preflop_distributions\<close>, which deals five board
  cards from a deck without the hand, returns its result.
\<close>

theorem deck_never_exhausted:
  assumes hand: "map_err to_deuces hand_cards = Inr hand" "length hand = 2"
    and board: "map_err to_deuces board_cards = Inr board" "length board \<in> {0, 3, 4, 5}"
    and known: "distinct (hand @ board)"
    and decks: "\<And>i. mset (decks i) = mset GetFullDeck"
    and opponents: "1 \<le> num_players - 1" "num_players - 1 \<le> 9"
    and classes: "\<And>r. 1 \<le> rc r \<and> rc r \<le> 9"
  shows "(5 - length board) + 2 * nat (num_players - 1) \<le>
           length GetFullDeck - length (hand @ board) \<and>
         (\<exists>sim_board opp_hands rest.
            odds_deal (decks i) hand_cards board_cards board num_players =
              Inr (sim_board, opp_hands, rest) \<and>
            length rest = length GetFullDeck - length (hand @ board) -
              ((5 - length board) + 2 * nat (num_players - 1)) \<and>
            27 \<le> length rest) \<and>
         (\<exists>out. odds_trial ev (decks i) hand_cards board_cards hand board num_players = Inr out) \<and>
         (\<exists>c. odds_counts ev decks hand_cards board_cards num_players num_trials = Inr c) \<and>
         (\<exists>r. monte_carlo_preflop_distributions ev rc decks hand_cards num_players num_trials = Inr r)"
proof -
  have b5: "length board \<le> 5" using board(2) by auto
  have p: "2 \<le> num_players" "num_players \<le> 23" using opponents by simp_all
  have o45: "2 * nat (num_players - 1) \<le> 45" using opponents by simp
  have l52: "length GetFullDeck = 52" using GetFullDeck_52 by simp
  have a: "(5 - length board) + 2 * nat (num_players - 1) \<le>
           length GetFullDeck - length (hand @ board)"
    using b5 hand(2) opponents l52 by simp
  from odds_deal_success [OF hand board(1) b5 known decks o45, of i]
  obtain sim_board opp_hands rest where
    d: "odds_deal (decks i) hand_cards board_cards board num_players =
          Inr (sim_board, opp_hands, rest)"
       "length rest = 45 - 2 * nat (num_players - 1)"
    by blast
  have r1: "length rest = length GetFullDeck - length (hand @ board) -
              ((5 - length board) + 2 * nat (num_players - 1))"
    using d(2) b5 hand(2) l52 by simp
  have r2: "27 \<le> length rest" using d(2) opponents by simp
  have each: "\<exists>out. odds_trial ev (decks k) hand_cards board_cards hand board num_players = Inr out"
    for k
    using odds_trial_outcome [OF hand board(1) b5 known decks p, of k ev] by blast
  from for_range_tally [of "\<lambda>k. odds_trial ev (decks k) hand_cards board_cards hand board num_players"
      0 "nat num_trials" 0 0 0, OF each]
  obtain w t l where
    "for_range 0 (nat num_trials)
       (\<lambda>k counts. and_then (odds_trial ev (decks k) hand_cards board_cards hand board num_players)
          (\<lambda>out. Inr (tally out counts))) (0, 0, 0) = Inr (w, t, l)"
    by blast
  then have c: "odds_counts ev decks hand_cards board_cards num_players num_trials = Inr (w, t, l)"
    by (simp add: odds_counts_def hand(1) board(1))
  have dh: "distinct hand" using known by simp
  have pre: "\<exists>r. monte_carlo_preflop_distributions ev rc decks hand_cards num_players num_trials
                 = Inr r"
    using hand dh decks p classes by (rule monte_carlo_preflop_distributions_success)
  show ?thesis
    using a d(1) r1 r2 each [of i] c pre by blast
qed

theorem deck_never_exhausted_witness:
  "(\<exists>sim_board opp_hands rest.
      odds_deal GetFullDeck [''As'', ''Kd''] [] [] 10 = Inr (sim_board, opp_hands, rest) \<and>
      27 \<le> length rest) \<and>
   (\<exists>out. odds_trial (\<lambda>board hand. 1) GetFullDeck [''As'', ''Kd''] [] [''As'', ''Kd''] [] 10 = Inr out) \<and>
   (\<exists>r. monte_carlo_preflop_distributions (\<lambda>board hand. 1) (\<lambda>r. 9) (\<lambda>i. GetFullDeck)
          [''As'', ''Kd''] 10 500000 = Inr r)"
proof -
  have h: "map_err to_deuces [''As'', ''Kd''] = Inr [''As'', ''Kd'']" by code_simp
  have b: "map_err to_deuces [] = Inr []" by simp
  have hl: "length [''As'', ''Kd''] = 2" by simp
  have bl: "length ([] :: card list) \<in> {0, 3, 4, 5}" by simp
  have d: "distinct ([''As'', ''Kd''] @ [])" by simp
  have o: "(1::int) \<le> 10 - 1" "(10::int) - 1 \<le> 9" by simp_all
  have c: "\<And>r::int. (1::int) \<le> 9 \<and> (9::int) \<le> 9" by simp
  have k: "\<And>i::nat. mset GetFullDeck = mset GetFullDeck" by simp
  note t = deck_never_exhausted [where decks = "\<lambda>i. GetFullDeck" and i = 0
      and ev = "\<lambda>board hand. 1" and rc = "\<lambda>r. 9" and num_trials = 500000
      and num_players = 10, OF h hl b bl d k o c]
  show ?thesis using t by blast
qed

section \<open>The preflop cache\<close>






section \<open>Failures of the cache file\<close>

text \<open>
  What holds of the claim: loading yields the empty dict when there is no file and when
  opening or unpickling it raises, and a failed write changes neither the result of the
  preflop branch, nor the exception it raises, nor the cache it holds in memory.
\<close>

lemma load_preflop_cache_empty:
  "load_preflop_cache NoFile = PyDict Map.empty \<and>
   load_preflop_cache (File (Inl e)) = PyDict Map.empty"
  by (simp add: load_preflop_cache_def path_exists_def read_pickle_def)

lemma failed_write_swallowed:
  "map_sum id (\<lambda>(result, self'). (result, preflop_cache self'))
     (calculate_odds_preflop ev rc decks (Some (e', f')) self hand players) =
   map_sum id (\<lambda>(result, self'). (result, preflop_cache self'))
     (calculate_odds_preflop ev rc decks None self hand players)"
  by (cases "monte_carlo_preflop_distributions ev rc decks hand players 500000")
     (simp_all add: calculate_odds_preflop_def Let_def split: option.splits pyobject.splits
        stored.splits)

text \<open>
  C7 fails on the code: a file that unpickles without an exception to an object that is
  not a dict of results is loaded as it is, not as an empty cache, and the next preflop
  query raises. With \<open>None\<close> in the file the query raises \<open>TypeError\<close> at the test
  \<open>key in self.preflop_cache\<close>, for every hand and number of players; with a list it
  raises \<open>TypeError\<close> at the subscript; with a dict whose entry is not a five-tuple it
  raises at the unpacking.
\<close>

theorem unpickled_object_not_checked:
  "load_preflop_cache (File (Inr PyNone)) = PyNone \<and>
   calculate_odds_preflop ev rc decks failure (init_app (File (Inr PyNone))) hand players =
     Inl TypeError \<and>
   calculate_odds_preflop ev rc decks failure
     (init_app (File (Inr (PyList [cache_key hand players])))) hand players = Inl TypeError \<and>
   calculate_odds_preflop ev rc decks failure
     (init_app (File (Inr (PyDict (Map.empty(cache_key hand players \<mapsto> Malformed ValueError))))))
     hand players = Inl ValueError"
  by (simp add: calculate_odds_preflop_def init_app_def load_preflop_cache_def path_exists_def
      read_pickle_def)

section \<open>Names and examples of the hand types\<close>

text \<open>
  A trial of \<open>monte_carlo_hand_distribution\<close> that returns has added one to the
  count under the key \<open>get_rank_class\<close> gives for the hero's rank, and to no other.
\<close>

lemma and_then_Inr_iff: "(and_then m f = Inr y) = (\<exists>x. m = Inr x \<and> f x = Inr y)"
  by (cases m) auto

lemma count_up_key: "count_up d k = Inr d' \<Longrightarrow> \<exists>n. d k = Some n \<and> d' = d(k \<mapsto> n + 1)"
  by (auto simp: count_up_def split: option.splits)

lemma distribution_trial_key:
  assumes "distribution_trial ev rc shuffled hand_cards board_cards hand board d = Inr d'"
  shows "\<exists>sim_board n. d (rc (ev sim_board hand)) = Some n \<and>
           d' = d(rc (ev sim_board hand) \<mapsto> n + 1)"
proof -
  from assms obtain sim_board rank where
    e: "evaluate ev sim_board hand = Inr rank" and c: "count_up d (rc rank) = Inr d'"
    by (auto simp: distribution_trial_def and_then_Inr_iff)
  from e have "rank = ev sim_board hand"
    by (auto simp: evaluate_def split: if_splits)
  then show ?thesis using count_up_key [OF c] by blast
qed

text \<open>
  C3 fails on the code: row 1 of the preflop table shows the single ace, the example the
  source comments as High Card and that heads \<open>HAND_CLASS_NAMES\<close>, beside the name
  Straight Flush, and row 9 shows the example of a straight flush beside High Card. The
  names and the tallies follow the evaluator's classes, where 1 is the strongest; the
  examples are keyed the other way round.
\<close>

theorem hand_type_example_mismatch:
  "preflop_row RANK_CLASS_TO_STRING (new_counts, new_counts, new_counts, 0, 0) 1 =
     Inr ([''As''], ''Straight Flush'', 0, 0, 0) \<and>
   map_of HAND_TYPE_EXAMPLES 1 = Some ([''As''], ''High Card'') \<and>
   HAND_CLASS_NAMES ! 0 = ''High Card'' \<and>
   preflop_row RANK_CLASS_TO_STRING (new_counts, new_counts, new_counts, 0, 0) 9 =
     Inr ([''As'', ''Ks'', ''Qs'', ''Js'', ''Ts''], ''High Card'', 0, 0, 0)"
  by code_simp

end
